theory Spec2Isabelle
  imports Main
begin

section \<open>Data model\<close>

text \<open>
  The development embeds \<^verbatim>\<open>src/schema/decorated-schema-processor.ts\<close>: the
  processor that turns the decorator metadata of a class into a Tigris schema.

  JavaScript objects are association lists from property names to values, in insertion
  order; \<open>map_of\<close> reads a property, \<open>obj_set\<close> writes one (in place when the key
  exists, at the end otherwise). Numbers occur only as values that are copied, so they
  are integers here.

  The processor is embedded twice. The sections up to the primary key augmenter, and the
  entry points after them, read every object through its own properties: this is the
  processor on names that no object or array inherits, in a runtime whose
  \<^verbatim>\<open>Object.prototype\<close> has only its built-in members. The section on the prototype
  chain follows the inherited members as well: \<^verbatim>\<open>Object.prototype\<close> is a value that
  every operation takes and gives back, the lookup of \<^verbatim>\<open>getSchemaFields\<close> is an
  array, and a write that leaves the schema changes that value. The two embeddings are
  proved to give the same documents, the second leaving \<^verbatim>\<open>Object.prototype\<close> as it
  was, when no field is called by an inherited name.
\<close>

text \<open>
  Modelled from the spec: the enumeration \<^verbatim>\<open>TigrisDataTypes\<close> is declared in
  \<^verbatim>\<open>../types\<close>, outside the source file. The tags are the ones the processor
  names; \<open>OTHER_TYPE\<close> stands for any further tag of the enumeration. Every tag is a
  non-empty string in the source, hence truthy.
\<close>

datatype TigrisDataTypes =
    STRING | BOOLEAN | INT32 | INT64 | NUMBER | NUMBER_BIGINT | DATE_TIME
  | ARRAY | OBJECT | OTHER_TYPE string

datatype json =
    JUndefined
  | JBool bool
  | JNum int
  | JStr string
  | JTag TigrisDataTypes
  | JObj "(string \<times> json) list"

type_synonym obj = "(string \<times> json) list"

fun obj_set :: "string \<Rightarrow> 'v \<Rightarrow> (string \<times> 'v) list \<Rightarrow> (string \<times> 'v) list" where
  "obj_set k v [] = [(k, v)]"
| "obj_set k v (p # ps) = (if fst p = k then (k, v) # ps else p # obj_set k v ps)"

definition obj_has :: "string \<Rightarrow> (string \<times> 'v) list \<Rightarrow> bool" where
  "obj_has k ob \<longleftrightarrow> map_of ob k \<noteq> None"

text \<open>\<^verbatim>\<open>ob[k]\<close>: reading a property that is absent gives \<^verbatim>\<open>undefined\<close>.\<close>

definition obj_get :: "obj \<Rightarrow> string \<Rightarrow> json" where
  "obj_get ob k = (case map_of ob k of None \<Rightarrow> JUndefined | Some v \<Rightarrow> v)"

text \<open>\<^verbatim>\<open>{ ...a, ...b }\<close>: a fresh object receiving the entries of \<open>a\<close>, then of \<open>b\<close>.\<close>

definition spread :: "obj \<Rightarrow> obj \<Rightarrow> obj" where
  "spread a b = fold (\<lambda>(k, v). obj_set k v) b (fold (\<lambda>(k, v). obj_set k v) a [])"

text \<open>A class reference: the identity of the constructor function and its \<^verbatim>\<open>name\<close>.\<close>

datatype class_ref = ClassRef (class_id: nat) (class_name: string)

text \<open>\<^verbatim>\<open>embedType\<close> is a scalar tag or a class (\<^verbatim>\<open>typeof embedType === "function"\<close>).\<close>

datatype embed_type = EmbedTag TigrisDataTypes | EmbedClass class_ref

text \<open>
  Modelled from the spec: \<^verbatim>\<open>FieldMetadata\<close>, \<^verbatim>\<open>SearchFieldMetadata\<close> and
  \<^verbatim>\<open>PrimaryKeyMetadata\<close> are declared outside the source file; the records hold
  the members the processor reads. An optional member is an \<open>option\<close>.
\<close>

record field_metadata =
  name :: string
  type :: TigrisDataTypes
  embedType :: "embed_type option"
  arrayDepth :: "int option"
  schemaFieldOptions :: "obj option"

record primary_key_options =
  order :: "int option"
  autoGenerate :: "bool option"

record primary_key_metadata =
  pk_name :: string
  pk_type :: TigrisDataTypes
  options :: "primary_key_options option"

record collection_metadata =
  target :: class_ref
  collectionName :: string

record index_metadata =
  index_target :: class_ref
  indexName :: string

text \<open>
  Modelled from the spec: \<^verbatim>\<open>DecoratorMetaStorage\<close> is outside the source file. It
  is a parameter of every operation: a read-only table of the registered metadata, each
  list in declaration order.
\<close>

record decorator_meta_storage =
  getIndexByTarget :: "class_ref \<Rightarrow> index_metadata"
  getCollectionByTarget :: "class_ref \<Rightarrow> collection_metadata"
  getSearchFieldsByTarget :: "class_ref \<Rightarrow> field_metadata list"
  getCollectionFieldsByTarget :: "class_ref \<Rightarrow> field_metadata list"
  getPKsByTarget :: "class_ref \<Rightarrow> primary_key_metadata list"

section \<open>The option applicability table\<close>

record schema_field_options =
  attrName :: string
  doesNotApplyTo :: "TigrisDataTypes set"
  doesNotApplyToParent :: "TigrisDataTypes set"

definition schemaOptions :: "schema_field_options list" where
  "schemaOptions =
    [ \<lparr>attrName = ''default'', doesNotApplyTo = {}, doesNotApplyToParent = {}\<rparr>,
      \<lparr>attrName = ''timestamp'', doesNotApplyTo = {OBJECT}, doesNotApplyToParent = {}\<rparr>,
      \<lparr>attrName = ''searchIndex'', doesNotApplyTo = {OBJECT},
        doesNotApplyToParent = {ARRAY}\<rparr>,
      \<lparr>attrName = ''sort'', doesNotApplyTo = {OBJECT}, doesNotApplyToParent = {ARRAY}\<rparr>,
      \<lparr>attrName = ''facet'', doesNotApplyTo = {OBJECT}, doesNotApplyToParent = {ARRAY}\<rparr>,
      \<lparr>attrName = ''dimensions'', doesNotApplyTo = {OBJECT, NUMBER},
        doesNotApplyToParent = {ARRAY}\<rparr>,
      \<lparr>attrName = ''id'',
        doesNotApplyTo =
          {OBJECT, ARRAY, NUMBER, BOOLEAN, NUMBER_BIGINT, INT64, INT32, DATE_TIME},
        doesNotApplyToParent = {ARRAY}\<rparr>,
      \<lparr>attrName = ''index'', doesNotApplyTo = {OBJECT, ARRAY},
        doesNotApplyToParent = {ARRAY, OBJECT}\<rparr> ]"

text \<open>
  \<^verbatim>\<open>attr.attrName in fieldOptions && !attr.doesNotApplyTo.has(fieldType) &&
  (!fieldParentType || !attr.doesNotApplyToParent.has(fieldParentType))\<close>
\<close>

definition schemaOptionSupported ::
  "obj \<Rightarrow> TigrisDataTypes \<Rightarrow> TigrisDataTypes option \<Rightarrow> schema_field_options \<Rightarrow> bool" where
  "schemaOptionSupported fieldOptions fieldType fieldParentType attr \<longleftrightarrow>
     obj_has (attrName attr) fieldOptions
     \<and> fieldType \<notin> doesNotApplyTo attr
     \<and> (case fieldParentType of
          None \<Rightarrow> True
        | Some parent \<Rightarrow> parent \<notin> doesNotApplyToParent attr)"


text \<open>
  The table of blocked combinations as the specification words it: the combinations it
  lists, and no others. The sentence on \<open>index\<close> (``additionally'' not attached under an
  OBJECT parent) is read as adding the OBJECT parent to the ARRAY parent.
\<close>

definition spec_blocked :: "string \<Rightarrow> TigrisDataTypes \<Rightarrow> TigrisDataTypes option \<Rightarrow> bool" where
  "spec_blocked attr fieldType parent \<longleftrightarrow>
     (attr \<in> {''timestamp'', ''searchIndex'', ''sort'', ''facet'', ''dimensions'', ''id'',
               ''index''} \<and> fieldType = OBJECT)
     \<or> (attr \<in> {''searchIndex'', ''sort'', ''facet'', ''dimensions'', ''id'', ''index''}
          \<and> parent = Some ARRAY)
     \<or> (attr = ''index'' \<and> parent = Some OBJECT)
     \<or> (attr = ''id''
          \<and> fieldType \<in> {ARRAY, NUMBER, BOOLEAN, NUMBER_BIGINT, INT64, INT32, DATE_TIME})
     \<or> (attr = ''dimensions'' \<and> fieldType \<in> {OBJECT, NUMBER})"

text \<open>The combinations the table of the source blocks: one more than the listed ones.\<close>

definition table_blocked :: "string \<Rightarrow> TigrisDataTypes \<Rightarrow> TigrisDataTypes option \<Rightarrow> bool" where
  "table_blocked attr fieldType parent \<longleftrightarrow>
     spec_blocked attr fieldType parent \<or> (attr = ''index'' \<and> fieldType = ARRAY)"

section \<open>The field resolver\<close>

text \<open>
  \<^verbatim>\<open>getSchemaFields\<close>. In index mode the search fields are returned as they are. In
  collection mode \<open>searchFieldsLookup\<close> maps a name to the search field registered
  under it (a later one replaces an earlier one), each collection field is pushed with
  its option bag, merged with the search field's bag when the lookup finds one, and the
  search fields whose names were not visited follow. This is the resolver on own
  properties, its lookup a dictionary; \<open>js_getSchemaFields\<close>, in the section on the
  prototype chain, has the lookup as the array that line 194 makes it.
\<close>

definition searchFieldsLookup ::
  "field_metadata list \<Rightarrow> (string \<rightharpoonup> field_metadata)" where
  "searchFieldsLookup searchFields =
     fold (\<lambda>field lookup. lookup(name field \<mapsto> field)) searchFields Map.empty"

text \<open>Spreading \<^verbatim>\<open>undefined\<close> copies nothing.\<close>

definition bag :: "obj option \<Rightarrow> obj" where
  "bag opts = (case opts of None \<Rightarrow> [] | Some b \<Rightarrow> b)"

definition merge_collection_field ::
  "(string \<rightharpoonup> field_metadata) \<Rightarrow> field_metadata \<Rightarrow> field_metadata" where
  "merge_collection_field lookup cf =
     (let fieldOption =
        (case lookup (name cf) of
           None \<Rightarrow> schemaFieldOptions cf
         | Some searchField \<Rightarrow>
             Some (spread (bag (schemaFieldOptions cf)) (bag (schemaFieldOptions searchField))))
      in cf\<lparr>schemaFieldOptions := fieldOption\<rparr>)"

definition getSchemaFields ::
  "decorator_meta_storage \<Rightarrow> class_ref \<Rightarrow> bool \<Rightarrow> field_metadata list" where
  "getSchemaFields storage from forCollection =
     (let searchFields = getSearchFieldsByTarget storage from in
      if \<not> forCollection then searchFields
      else
        let lookup = searchFieldsLookup searchFields;
            collectionFields = getCollectionFieldsByTarget storage from;
            (pushed, visitedFields) =
              fold (\<lambda>cf (pushed, visitedFields).
                      (pushed @ [merge_collection_field lookup cf],
                       insert (name cf) visitedFields))
                   collectionFields ([], {})
        in fold (\<lambda>sf pushed. if name sf \<notin> visitedFields then pushed @ [sf] else pushed)
             searchFields pushed)"

section \<open>Nested arrays\<close>

text \<open>
  \<^verbatim>\<open>buildNestedArray\<close> builds its result by writing through the aliases
  \<^verbatim>\<open>head\<close>, \<^verbatim>\<open>prev\<close> and \<^verbatim>\<open>next\<close>, so it is modelled on a store: an
  object lives at an address (its index in the store) and a property holds either a
  value or the address of another object. \<open>None\<close> is an uncaught \<^verbatim>\<open>TypeError\<close>
  (a property of \<^verbatim>\<open>undefined\<close> is written).
\<close>

datatype hval = HVal json | HRef nat

type_synonym heap = "(string \<times> hval) list list"

record bna_state =
  heap :: heap
  head :: "nat option"
  prev :: "nat option"
  nxt :: "nat option"
  depth :: int

text \<open>\<^verbatim>\<open>{}\<close>: a fresh empty object and its address.\<close>

definition alloc :: "heap \<Rightarrow> heap \<times> nat" where
  "alloc h = (h @ [[]], length h)"

definition heap_set :: "heap \<Rightarrow> nat \<Rightarrow> string \<Rightarrow> hval \<Rightarrow> heap" where
  "heap_set h a k v = h[a := obj_set k v (h ! a)]"

text \<open>One turn of the loop body, lines 137 to 145.\<close>

definition bna_step :: "bna_state \<Rightarrow> bna_state option" where
  "bna_step s =
     (let s1 = (if head s = None
                then (let (h, a) = alloc (heap s) in s\<lparr>heap := h, nxt := Some a, head := Some a\<rparr>)
                else s)
      in case nxt s1 of
           None \<Rightarrow> None
         | Some a \<Rightarrow>
             (let h1 = heap_set (heap s1) a ''type'' (HVal (JTag ARRAY));
                  (h2, b) = alloc h1;
                  h3 = heap_set h2 a ''items'' (HRef b)
              in Some (s1\<lparr>heap := h3, prev := Some a,
                          nxt := (case map_of (h3 ! a) ''items'' of
                                    Some (HRef c) \<Rightarrow> Some c
                                  | _ \<Rightarrow> None),
                          depth := depth s1 - 1\<rparr>)))"

function bna_loop :: "bna_state \<Rightarrow> bna_state option" where
  "bna_loop s =
     (if depth s > 0
      then (case bna_step s of None \<Rightarrow> None | Some s' \<Rightarrow> bna_loop s')
      else Some s)"
  by pat_completeness auto
termination
  by (relation "measure (\<lambda>s. nat (depth s))")
     (auto simp: bna_step_def Let_def alloc_def split: option.splits if_splits)

declare bna_loop.simps [simp del]

text \<open>
  Reading the object at an address back as a value, following references; the fuel
  bounds the number of references followed.
\<close>

fun reify :: "heap \<Rightarrow> nat \<Rightarrow> nat \<Rightarrow> json option"
  and reify_props :: "heap \<Rightarrow> nat \<Rightarrow> (string \<times> hval) list \<Rightarrow> obj option" where
  "reify h 0 a = None"
| "reify h (Suc n) a =
     (if a < length h then map_option JObj (reify_props h n (h ! a)) else None)"
| "reify_props h n [] = Some []"
| "reify_props h n ((k, HVal v) # ps) =
     map_option (\<lambda>r. (k, v) # r) (reify_props h n ps)"
| "reify_props h n ((k, HRef b) # ps) =
     (case reify h n b of
        None \<Rightarrow> None
      | Some v \<Rightarrow> map_option (\<lambda>r. (k, v) # r) (reify_props h n ps))"

definition buildNestedArray :: "json \<Rightarrow> int \<Rightarrow> json option" where
  "buildNestedArray items depth0 =
     (case bna_loop \<lparr>heap = [], head = None, prev = None, nxt = None, depth = depth0\<rparr> of
        None \<Rightarrow> None
      | Some s \<Rightarrow>
          (case prev s of
             None \<Rightarrow> None
           | Some a \<Rightarrow>
               (let h = heap_set (heap s) a ''items'' (HVal items)
                in case head s of
                     None \<Rightarrow> Some JUndefined
                   | Some r \<Rightarrow> reify h (length h) r)))"

section \<open>The schema builder\<close>

text \<open>
  \<^verbatim>\<open>schema[key][attr] = v\<close>. The class body is strict code: writing a property of
  \<^verbatim>\<open>undefined\<close> or of a primitive throws a \<^verbatim>\<open>TypeError\<close>, here \<open>None\<close>.
\<close>

definition set_prop :: "string \<Rightarrow> string \<Rightarrow> json \<Rightarrow> obj \<Rightarrow> obj option" where
  "set_prop key attr v schema =
     (case map_of schema key of
        Some (JObj node) \<Rightarrow> Some (obj_set key (JObj (obj_set attr v node)) schema)
      | _ \<Rightarrow> None)"

text \<open>The loop over \<^verbatim>\<open>schemaOptions\<close>, lines 122 to 126.\<close>

fun attach_options ::
  "obj \<Rightarrow> TigrisDataTypes \<Rightarrow> TigrisDataTypes option \<Rightarrow> string \<Rightarrow> schema_field_options list
     \<Rightarrow> obj \<Rightarrow> obj option" where
  "attach_options opts fieldType parentFieldType key [] schema = Some schema"
| "attach_options opts fieldType parentFieldType key (opKey # rest) schema =
     (if schemaOptionSupported opts fieldType parentFieldType opKey
      then (case set_prop key (attrName opKey) (obj_get opts (attrName opKey)) schema of
              None \<Rightarrow> None
            | Some schema' \<Rightarrow> attach_options opts fieldType parentFieldType key rest schema')
      else attach_options opts fieldType parentFieldType key rest schema)"

text \<open>
  The \<^verbatim>\<open>switch\<close> on the field type, lines 78 to 117, on the schema in which the
  field's key is already seeded. \<open>build\<close> is the recursive call; \<open>None\<close> says that
  no schema came back. The parent type handed down is
  \<^verbatim>\<open>parentFieldType ?? field.type\<close>.
\<close>

definition switch_field ::
  "(class_ref \<Rightarrow> bool \<Rightarrow> TigrisDataTypes option \<Rightarrow> obj option)
     \<Rightarrow> bool \<Rightarrow> TigrisDataTypes option \<Rightarrow> field_metadata \<Rightarrow> obj \<Rightarrow> obj option" where
  "switch_field build forCollection parentFieldType field schema =
     (let key = name field;
          passedParent = (case parentFieldType of None \<Rightarrow> type field | Some p \<Rightarrow> p)
      in case type field of
           ARRAY \<Rightarrow>
             (case (case embedType field of
                      Some (EmbedClass c) \<Rightarrow>
                        map_option (\<lambda>nested. JObj [(''type'', JObj nested)])
                          (build c forCollection (Some passedParent))
                    | Some (EmbedTag t) \<Rightarrow> Some (JObj [(''type'', JTag t)])
                    | None \<Rightarrow> Some (JObj [(''type'', JUndefined)])) of
                None \<Rightarrow> None
              | Some arrayItems \<Rightarrow>
                  (let arrayDepth = (case arrayDepth field of
                                       None \<Rightarrow> 1
                                     | Some d \<Rightarrow> if d \<noteq> 0 \<and> d > 1 then d else 1)
                   in case buildNestedArray arrayItems arrayDepth of
                        None \<Rightarrow> None
                      | Some node \<Rightarrow> Some (obj_set key node schema)))
         | OBJECT \<Rightarrow>
             (case embedType field of
                Some (EmbedClass c) \<Rightarrow>
                  (case build c forCollection (Some passedParent) of
                     None \<Rightarrow> None
                   | Some embedSchema \<Rightarrow>
                       if length embedSchema > 0
                       then (case build c forCollection (Some passedParent) of
                               None \<Rightarrow> None
                             | Some nested \<Rightarrow>
                                 Some (obj_set key (JObj [(''type'', JObj nested)]) schema))
                       else Some schema)
              | _ \<Rightarrow> Some schema)
         | STRING \<Rightarrow>
             (case schemaFieldOptions field of
                None \<Rightarrow> Some schema
              | Some opts \<Rightarrow>
                  if obj_has ''maxLength'' opts
                  then set_prop key ''maxLength'' (obj_get opts ''maxLength'') schema
                  else Some schema)
         | _ \<Rightarrow> Some schema)"

text \<open>
  The body of the loop over the fields, lines 71 to 127, on own properties:
  \<^verbatim>\<open>key in schema\<close> is the test for an own property here, and \<open>js_process_field\<close>
  is the same loop body on the prototype chain.
\<close>

definition process_field ::
  "(class_ref \<Rightarrow> bool \<Rightarrow> TigrisDataTypes option \<Rightarrow> obj option)
     \<Rightarrow> bool \<Rightarrow> TigrisDataTypes option \<Rightarrow> field_metadata \<Rightarrow> obj \<Rightarrow> obj option" where
  "process_field build forCollection parentFieldType field schema =
     (let key = name field;
          seeded = (if \<not> obj_has key schema
                    then obj_set key (JObj [(''type'', JTag (type field))]) schema
                    else schema)
      in case switch_field build forCollection parentFieldType field seeded of
           None \<Rightarrow> None
         | Some switched \<Rightarrow>
             (case schemaFieldOptions field of
                None \<Rightarrow> Some switched
              | Some opts \<Rightarrow>
                  attach_options opts (type field) parentFieldType key schemaOptions
                    switched))"

fun process_fields ::
  "(class_ref \<Rightarrow> bool \<Rightarrow> TigrisDataTypes option \<Rightarrow> obj option)
     \<Rightarrow> bool \<Rightarrow> TigrisDataTypes option \<Rightarrow> field_metadata list \<Rightarrow> obj \<Rightarrow> obj option" where
  "process_fields build forCollection parentFieldType [] schema = Some schema"
| "process_fields build forCollection parentFieldType (field # rest) schema =
     (case process_field build forCollection parentFieldType field schema of
        None \<Rightarrow> None
      | Some schema' \<Rightarrow> process_fields build forCollection parentFieldType rest schema')"

text \<open>
  \<^verbatim>\<open>buildTigrisSchema\<close>. The source has no guard against a class that embeds itself,
  so the recursion is bounded by fuel: with no fuel left no schema comes back.
\<close>

fun buildTigrisSchema ::
  "decorator_meta_storage \<Rightarrow> nat \<Rightarrow> class_ref \<Rightarrow> bool \<Rightarrow> TigrisDataTypes option
     \<Rightarrow> obj option" where
  "buildTigrisSchema storage 0 from forCollection parentFieldType = None"
| "buildTigrisSchema storage (Suc fuel) from forCollection parentFieldType =
     process_fields (\<lambda>c fc p. buildTigrisSchema storage fuel c fc p)
       forCollection parentFieldType (getSchemaFields storage from forCollection) []"

section \<open>The primary key augmenter\<close>

datatype error = IncompletePrimaryKeyOrderError string string | TypeError | RangeError

text \<open>\<^verbatim>\<open>pk?.options?.order\<close>\<close>

definition pk_order :: "primary_key_metadata \<Rightarrow> int option" where
  "pk_order pk = (case options pk of None \<Rightarrow> None | Some opts \<Rightarrow> order opts)"

text \<open>\<^verbatim>\<open>pk.options?.autoGenerate === true\<close>\<close>

definition pk_autoGenerate :: "primary_key_metadata \<Rightarrow> bool" where
  "pk_autoGenerate pk =
     (case options pk of None \<Rightarrow> False | Some opts \<Rightarrow> autoGenerate opts = Some True)"

text \<open>Truthiness of an optional number: \<^verbatim>\<open>undefined\<close> and \<open>0\<close> are falsy.\<close>

definition truthy_num :: "int option \<Rightarrow> bool" where
  "truthy_num x = (case x of None \<Rightarrow> False | Some n \<Rightarrow> n \<noteq> 0)"

fun check_orders :: "primary_key_metadata list \<Rightarrow> class_ref \<Rightarrow> error option" where
  "check_orders [] collectionClass = None"
| "check_orders (pk # pks) collectionClass =
     (if \<not> truthy_num (pk_order pk)
      then Some (IncompletePrimaryKeyOrderError (pk_name pk) (class_name collectionClass))
      else check_orders pks collectionClass)"

definition validatePrimaryKeysOrder ::
  "primary_key_metadata list \<Rightarrow> class_ref \<Rightarrow> error option" where
  "validatePrimaryKeysOrder primaryKeys collectionClass =
     (if length primaryKeys > 1 then check_orders primaryKeys collectionClass else None)"

definition primary_key_attr :: "primary_key_metadata \<Rightarrow> json" where
  "primary_key_attr pk =
     JObj [(''order'', JNum (case pk_order pk of None \<Rightarrow> 1 | Some n \<Rightarrow> n)),
           (''autoGenerate'', JBool (pk_autoGenerate pk))]"

text \<open>
  The loop of \<^verbatim>\<open>addPrimaryKeys\<close>, lines 157 to 167. The schema is mutated in place:
  the result is the schema as the loop leaves it, with the error that stopped the loop,
  if one did. \<^verbatim>\<open>pk.name in targetSchema\<close> is the test for an own property here;
  \<open>js_add_pks\<close> is the loop on the prototype chain.
\<close>

fun add_pks :: "primary_key_metadata list \<Rightarrow> obj \<Rightarrow> obj \<times> error option" where
  "add_pks [] targetSchema = (targetSchema, None)"
| "add_pks (pk # pks) targetSchema =
     (let seeded = (if \<not> obj_has (pk_name pk) targetSchema
                    then obj_set (pk_name pk) (JObj [(''type'', JTag (pk_type pk))]) targetSchema
                    else targetSchema)
      in case set_prop (pk_name pk) ''primary_key'' (primary_key_attr pk) seeded of
           None \<Rightarrow> (seeded, Some TypeError)
         | Some targetSchema' \<Rightarrow> add_pks pks targetSchema')"

definition addPrimaryKeys ::
  "decorator_meta_storage \<Rightarrow> obj \<Rightarrow> class_ref \<Rightarrow> obj \<times> error option" where
  "addPrimaryKeys storage targetSchema collectionClass =
     (let primaryKeysMetadata = getPKsByTarget storage collectionClass in
      case validatePrimaryKeysOrder primaryKeysMetadata collectionClass of
        Some e \<Rightarrow> (targetSchema, Some e)
      | None \<Rightarrow> add_pks primaryKeysMetadata targetSchema)"

section \<open>The prototype chain\<close>

text \<open>
  The schema under construction, the option bags and the lookup array of
  \<^verbatim>\<open>getSchemaFields\<close> inherit from \<^verbatim>\<open>Object.prototype\<close>, the array through
  \<^verbatim>\<open>Array.prototype\<close>. The operator \<^verbatim>\<open>in\<close> of lines 72, 113, 158 and 302 is true of
  an inherited name, and \<^verbatim>\<open>schema[key]\<close> then reads the inherited member: the write
  of line 114, 124 or 163 lands on that member, outside the schema. This section embeds
  the processor once more, with these effects.

  \<^verbatim>\<open>Object.prototype\<close> is the list \<open>W\<close> of its own properties: its built-in members,
  which are functions and hence objects (a member is modelled by the properties that the
  processor has added to it), and the properties that the processor has added to
  \<^verbatim>\<open>Object.prototype\<close> itself. The accessor \<^verbatim>\<open>__proto__\<close> is not in the list:
  reading it gives \<^verbatim>\<open>Object.prototype\<close>, assigning through it replaces the prototype
  of the object assigned to. Every operation takes \<open>W\<close> and gives it back with its
  outcome.
\<close>

text \<open>
  The string-keyed members of \<^verbatim>\<open>Object.prototype\<close> other than \<^verbatim>\<open>__proto__\<close>, and
  those of \<^verbatim>\<open>Array.prototype\<close> other than \<^verbatim>\<open>length\<close> (ECMAScript 2023).
\<close>

definition object_members :: "string list" where
  "object_members =
     [''constructor'', ''__defineGetter__'', ''__defineSetter__'', ''hasOwnProperty'',
      ''__lookupGetter__'', ''__lookupSetter__'', ''isPrototypeOf'',
      ''propertyIsEnumerable'', ''toString'', ''valueOf'', ''toLocaleString'']"

definition array_members :: "string list" where
  "array_members =
     [''at'', ''concat'', ''constructor'', ''copyWithin'', ''entries'', ''every'', ''fill'',
      ''filter'', ''find'', ''findIndex'', ''findLast'', ''findLastIndex'', ''flat'',
      ''flatMap'', ''forEach'', ''includes'', ''indexOf'', ''join'', ''keys'',
      ''lastIndexOf'', ''map'', ''pop'', ''push'', ''reduce'', ''reduceRight'', ''reverse'',
      ''shift'', ''slice'', ''some'', ''sort'', ''splice'', ''toLocaleString'',
      ''toReversed'', ''toSorted'', ''toSpliced'', ''toString'', ''unshift'', ''values'',
      ''with'']"

text \<open>\<^verbatim>\<open>Object.prototype\<close> as the runtime starts with it.\<close>

definition pristine :: obj where
  "pristine = map (\<lambda>member. (member, JObj [])) object_members"

text \<open>
  What an operation comes to: a value, an error thrown, or \<open>Beyond\<close>. Three
  situations are beyond this model, each of them the effect of one name: an assignment
  through the \<^verbatim>\<open>__proto__\<close> setter, to the schema (lines 91 and 102, for a field named
  \<^verbatim>\<open>__proto__\<close>) or to the lookup array (line 196), after which the object inherits
  from the value assigned; and the use of an object that the processor itself has added
  to \<^verbatim>\<open>Object.prototype\<close> as a property, which may be shared with the metadata.
\<close>

datatype 'a outcome = Done 'a | Throw error | Beyond

text \<open>\<^verbatim>\<open>k in ob\<close> and \<^verbatim>\<open>ob[k]\<close>, for an object \<open>ob\<close> that inherits from \<^verbatim>\<open>Object.prototype\<close>.\<close>

definition js_in :: "string \<Rightarrow> obj \<Rightarrow> obj \<Rightarrow> bool" where
  "js_in k ob W \<longleftrightarrow> obj_has k ob \<or> k = ''__proto__'' \<or> obj_has k W"

definition js_get :: "obj \<Rightarrow> obj \<Rightarrow> string \<Rightarrow> json" where
  "js_get ob W k =
     (case map_of ob k of
        Some v \<Rightarrow> v
      | None \<Rightarrow> if k = ''__proto__'' then JObj W else obj_get W k)"

text \<open>Truthiness of a value.\<close>

definition truthy :: "json \<Rightarrow> bool" where
  "truthy v =
     (case v of
        JUndefined \<Rightarrow> False
      | JBool b \<Rightarrow> b
      | JNum n \<Rightarrow> n \<noteq> 0
      | JStr s \<Rightarrow> s \<noteq> []
      | JTag t \<Rightarrow> True
      | JObj ob \<Rightarrow> True)"

text \<open>
  \<^verbatim>\<open>schema[key][attr] = v\<close>. The target is the own property when there is one; else, for
  \<^verbatim>\<open>__proto__\<close>, it is \<^verbatim>\<open>Object.prototype\<close>; else it is the inherited member. A
  built-in member receives the property. The class body is strict code: a target that is
  a primitive or \<^verbatim>\<open>undefined\<close> makes the write throw.
\<close>

definition js_set_prop :: "string \<Rightarrow> string \<Rightarrow> json \<Rightarrow> obj \<Rightarrow> obj \<Rightarrow> obj outcome \<times> obj" where
  "js_set_prop key attr v schema W =
     (case map_of schema key of
        Some (JObj node) \<Rightarrow> (Done (obj_set key (JObj (obj_set attr v node)) schema), W)
      | Some primitive \<Rightarrow> (Throw TypeError, W)
      | None \<Rightarrow>
          if key = ''__proto__'' then (Done schema, obj_set attr v W)
          else (case map_of W key of
                  Some (JObj member) \<Rightarrow>
                    if key \<in> set object_members
                    then (Done schema, obj_set key (JObj (obj_set attr v member)) W)
                    else (Beyond, W)
                | _ \<Rightarrow> (Throw TypeError, W)))"

text \<open>
  \<^verbatim>\<open>schema[key] = node\<close>, lines 91 and 102: an own property, also when the name is
  inherited, except through the setter \<^verbatim>\<open>__proto__\<close>.
\<close>

definition js_assign :: "string \<Rightarrow> json \<Rightarrow> obj \<Rightarrow> obj \<Rightarrow> obj outcome \<times> obj" where
  "js_assign key node schema W =
     (if key = ''__proto__'' then (Beyond, W) else (Done (obj_set key node schema), W))"

text \<open>\<^verbatim>\<open>schemaOptionSupported\<close>: \<^verbatim>\<open>attr.attrName in fieldOptions\<close> sees inherited names.\<close>

definition js_schemaOptionSupported ::
  "obj \<Rightarrow> TigrisDataTypes \<Rightarrow> TigrisDataTypes option \<Rightarrow> schema_field_options \<Rightarrow> obj \<Rightarrow> bool" where
  "js_schemaOptionSupported fieldOptions fieldType fieldParentType attr W \<longleftrightarrow>
     js_in (attrName attr) fieldOptions W
     \<and> fieldType \<notin> doesNotApplyTo attr
     \<and> (case fieldParentType of
          None \<Rightarrow> True
        | Some parent \<Rightarrow> parent \<notin> doesNotApplyToParent attr)"

text \<open>The loop over \<^verbatim>\<open>schemaOptions\<close>, lines 122 to 126.\<close>

fun js_attach_options ::
  "obj \<Rightarrow> TigrisDataTypes \<Rightarrow> TigrisDataTypes option \<Rightarrow> string \<Rightarrow> schema_field_options list
     \<Rightarrow> obj \<Rightarrow> obj \<Rightarrow> obj outcome \<times> obj" where
  "js_attach_options opts fieldType parentFieldType key [] schema W = (Done schema, W)"
| "js_attach_options opts fieldType parentFieldType key (opKey # rest) schema W =
     (if js_schemaOptionSupported opts fieldType parentFieldType opKey W
      then (case js_set_prop key (attrName opKey) (js_get opts W (attrName opKey)) schema W of
              (Done schema', W') \<Rightarrow>
                js_attach_options opts fieldType parentFieldType key rest schema' W'
            | stopped \<Rightarrow> stopped)
      else js_attach_options opts fieldType parentFieldType key rest schema W)"

text \<open>Lines 90 and 91: the depth, the nested array, the assignment to the key.\<close>

definition js_array_node ::
  "field_metadata \<Rightarrow> json \<Rightarrow> obj \<Rightarrow> obj \<Rightarrow> obj outcome \<times> obj" where
  "js_array_node field arrayItems schema W =
     (let arrayDepth = (case arrayDepth field of
                          None \<Rightarrow> 1
                        | Some d \<Rightarrow> if d \<noteq> 0 \<and> d > 1 then d else 1)
      in case buildNestedArray arrayItems arrayDepth of
           None \<Rightarrow> (Throw TypeError, W)
         | Some node \<Rightarrow> js_assign (name field) node schema W)"

text \<open>
  The \<^verbatim>\<open>switch\<close>, lines 78 to 117. A recursive call that does not come to a schema
  ends the loop with what it came to.
\<close>

definition js_switch_field ::
  "(class_ref \<Rightarrow> bool \<Rightarrow> TigrisDataTypes option \<Rightarrow> obj \<Rightarrow> (obj outcome \<times> obj) option)
     \<Rightarrow> bool \<Rightarrow> TigrisDataTypes option \<Rightarrow> field_metadata \<Rightarrow> obj \<Rightarrow> obj
     \<Rightarrow> (obj outcome \<times> obj) option" where
  "js_switch_field build forCollection parentFieldType field schema W =
     (let key = name field;
          passedParent = (case parentFieldType of None \<Rightarrow> type field | Some p \<Rightarrow> p)
      in case type field of
           ARRAY \<Rightarrow>
             (case embedType field of
                Some (EmbedClass c) \<Rightarrow>
                  (case build c forCollection (Some passedParent) W of
                     None \<Rightarrow> None
                   | Some (Done nested, W') \<Rightarrow>
                       Some (js_array_node field (JObj [(''type'', JObj nested)]) schema W')
                   | Some stopped \<Rightarrow> Some stopped)
              | Some (EmbedTag t) \<Rightarrow>
                  Some (js_array_node field (JObj [(''type'', JTag t)]) schema W)
              | None \<Rightarrow>
                  Some (js_array_node field (JObj [(''type'', JUndefined)]) schema W))
         | OBJECT \<Rightarrow>
             (case embedType field of
                Some (EmbedClass c) \<Rightarrow>
                  (case build c forCollection (Some passedParent) W of
                     None \<Rightarrow> None
                   | Some (Done embedSchema, W') \<Rightarrow>
                       if length embedSchema > 0
                       then (case build c forCollection (Some passedParent) W' of
                               None \<Rightarrow> None
                             | Some (Done nested, W'') \<Rightarrow>
                                 Some (js_assign key (JObj [(''type'', JObj nested)]) schema W'')
                             | Some stopped \<Rightarrow> Some stopped)
                       else Some (Done schema, W')
                   | Some stopped \<Rightarrow> Some stopped)
              | _ \<Rightarrow> Some (Done schema, W))
         | STRING \<Rightarrow>
             (case schemaFieldOptions field of
                None \<Rightarrow> Some (Done schema, W)
              | Some opts \<Rightarrow>
                  if js_in ''maxLength'' opts W
                  then Some (js_set_prop key ''maxLength'' (js_get opts W ''maxLength'') schema W)
                  else Some (Done schema, W))
         | _ \<Rightarrow> Some (Done schema, W))"

text \<open>
  The body of the loop over the fields, lines 71 to 127. The key is seeded when
  \<^verbatim>\<open>key in schema\<close> is false, which it never is for an inherited name.
\<close>

definition js_process_field ::
  "(class_ref \<Rightarrow> bool \<Rightarrow> TigrisDataTypes option \<Rightarrow> obj \<Rightarrow> (obj outcome \<times> obj) option)
     \<Rightarrow> bool \<Rightarrow> TigrisDataTypes option \<Rightarrow> field_metadata \<Rightarrow> obj \<Rightarrow> obj
     \<Rightarrow> (obj outcome \<times> obj) option" where
  "js_process_field build forCollection parentFieldType field schema W =
     (let key = name field;
          seeded = (if \<not> js_in key schema W
                    then obj_set key (JObj [(''type'', JTag (type field))]) schema
                    else schema)
      in case js_switch_field build forCollection parentFieldType field seeded W of
           None \<Rightarrow> None
         | Some (Done switched, W') \<Rightarrow>
             (case schemaFieldOptions field of
                None \<Rightarrow> Some (Done switched, W')
              | Some opts \<Rightarrow>
                  Some (js_attach_options opts (type field) parentFieldType key schemaOptions
                          switched W'))
         | Some stopped \<Rightarrow> Some stopped)"

fun js_process_fields ::
  "(class_ref \<Rightarrow> bool \<Rightarrow> TigrisDataTypes option \<Rightarrow> obj \<Rightarrow> (obj outcome \<times> obj) option)
     \<Rightarrow> bool \<Rightarrow> TigrisDataTypes option \<Rightarrow> field_metadata list \<Rightarrow> obj \<Rightarrow> obj
     \<Rightarrow> (obj outcome \<times> obj) option" where
  "js_process_fields build forCollection parentFieldType [] schema W = Some (Done schema, W)"
| "js_process_fields build forCollection parentFieldType (field # rest) schema W =
     (case js_process_field build forCollection parentFieldType field schema W of
        None \<Rightarrow> None
      | Some (Done schema', W') \<Rightarrow>
          js_process_fields build forCollection parentFieldType rest schema' W'
      | Some stopped \<Rightarrow> Some stopped)"

text \<open>
  The lookup of \<^verbatim>\<open>getSchemaFields\<close> is an array (line 194) that is used as a
  dictionary. A name that is an array index, a canonical numeral below 4294967295,
  stores an element and makes the length positive.
\<close>

definition digit :: "char \<Rightarrow> bool" where
  "digit c \<longleftrightarrow> c \<in> set ''0123456789''"

definition decimal :: "string \<Rightarrow> nat" where
  "decimal s = foldl (\<lambda>n c. 10 * n + (of_char c - 48)) 0 s"

definition array_index :: "string \<Rightarrow> bool" where
  "array_index s \<longleftrightarrow>
     s \<noteq> [] \<and> list_all digit s \<and> (s = ''0'' \<or> hd s \<noteq> CHR ''0'')
     \<and> decimal s < 4294967295"

type_synonym lookup = "(string \<times> field_metadata) list"

text \<open>
  \<^verbatim>\<open>searchFieldsLookup[field.name] = field\<close>, line 196. Assigning a descriptor to the
  \<^verbatim>\<open>length\<close> of an array throws a \<^verbatim>\<open>RangeError\<close>.
\<close>

definition js_lookup_put :: "field_metadata \<Rightarrow> lookup outcome \<Rightarrow> lookup outcome" where
  "js_lookup_put field filled =
     (case filled of
        Done lookup \<Rightarrow>
          if name field = ''length'' then Throw RangeError
          else if name field = ''__proto__'' then Beyond
          else Done (obj_set (name field) field lookup)
      | stopped \<Rightarrow> stopped)"

definition js_searchFieldsLookup :: "field_metadata list \<Rightarrow> lookup outcome" where
  "js_searchFieldsLookup searchFields = fold js_lookup_put searchFields (Done [])"

text \<open>
  \<^verbatim>\<open>searchFieldsLookup[cf.name]\<close>, line 206: the descriptor stored under the name;
  else, for \<^verbatim>\<open>length\<close>, the length of the array; else what \<^verbatim>\<open>Array.prototype\<close> or
  \<^verbatim>\<open>Object.prototype\<close> holds under the name. \<open>Other b\<close> is a value that is no
  descriptor, a function or a primitive: its truthiness \<open>b\<close> decides line 207, and its
  \<^verbatim>\<open>schemaFieldOptions\<close> is \<^verbatim>\<open>undefined\<close>, so that line 208 copies the bag of the
  collection field.
\<close>

datatype lookup_value = Found field_metadata | Other bool | Shared

definition js_lookup :: "lookup \<Rightarrow> obj \<Rightarrow> string \<Rightarrow> lookup_value" where
  "js_lookup lookup W k =
     (case map_of lookup k of
        Some searchField \<Rightarrow> Found searchField
      | None \<Rightarrow>
          if k = ''length'' then Other (list_ex array_index (map fst lookup))
          else if k = ''__proto__'' \<or> k \<in> set array_members then Other True
          else (case map_of W k of
                  None \<Rightarrow> Other False
                | Some v \<Rightarrow>
                    if k \<in> set object_members then Other True
                    else (case v of JObj shared \<Rightarrow> Shared | _ \<Rightarrow> Other (truthy v))))"

definition js_merge_collection_field ::
  "lookup \<Rightarrow> obj \<Rightarrow> field_metadata \<Rightarrow> field_metadata outcome" where
  "js_merge_collection_field lookup W cf =
     (case js_lookup lookup W (name cf) of
        Found searchField \<Rightarrow>
          Done (cf\<lparr>schemaFieldOptions :=
                     Some (spread (bag (schemaFieldOptions cf))
                             (bag (schemaFieldOptions searchField)))\<rparr>)
      | Other searchField \<Rightarrow>
          if searchField
          then Done (cf\<lparr>schemaFieldOptions := Some (spread (bag (schemaFieldOptions cf)) [])\<rparr>)
          else Done cf
      | Shared \<Rightarrow> Beyond)"

text \<open>The loop over the collection fields, lines 202 to 217.\<close>

fun js_push_collection ::
  "lookup \<Rightarrow> obj \<Rightarrow> field_metadata list \<Rightarrow> field_metadata list \<Rightarrow> string set
     \<Rightarrow> (field_metadata list \<times> string set) outcome" where
  "js_push_collection lookup W [] pushed visitedFields = Done (pushed, visitedFields)"
| "js_push_collection lookup W (cf # rest) pushed visitedFields =
     (case js_merge_collection_field lookup W cf of
        Done merged \<Rightarrow>
          js_push_collection lookup W rest (pushed @ [merged]) (insert (name cf) visitedFields)
      | Throw e \<Rightarrow> Throw e
      | Beyond \<Rightarrow> Beyond)"

definition js_getSchemaFields ::
  "decorator_meta_storage \<Rightarrow> class_ref \<Rightarrow> bool \<Rightarrow> obj \<Rightarrow> field_metadata list outcome" where
  "js_getSchemaFields storage from forCollection W =
     (let searchFields = getSearchFieldsByTarget storage from in
      if \<not> forCollection then Done searchFields
      else
        case js_searchFieldsLookup searchFields of
          Done lookup \<Rightarrow>
            (case js_push_collection lookup W (getCollectionFieldsByTarget storage from)
                    [] {} of
               Done (pushed, visitedFields) \<Rightarrow>
                 Done (fold (\<lambda>sf pushed.
                               if name sf \<notin> visitedFields then pushed @ [sf] else pushed)
                         searchFields pushed)
             | Throw e \<Rightarrow> Throw e
             | Beyond \<Rightarrow> Beyond)
        | Throw e \<Rightarrow> Throw e
        | Beyond \<Rightarrow> Beyond)"

text \<open>\<^verbatim>\<open>buildTigrisSchema\<close>, on fuel as before: \<open>None\<close> is a recursion that does not end.\<close>

fun js_buildTigrisSchema ::
  "decorator_meta_storage \<Rightarrow> nat \<Rightarrow> class_ref \<Rightarrow> bool \<Rightarrow> TigrisDataTypes option \<Rightarrow> obj
     \<Rightarrow> (obj outcome \<times> obj) option" where
  "js_buildTigrisSchema storage 0 from forCollection parentFieldType W = None"
| "js_buildTigrisSchema storage (Suc fuel) from forCollection parentFieldType W =
     (case js_getSchemaFields storage from forCollection W of
        Done schemaFields \<Rightarrow>
          js_process_fields (\<lambda>c fc p W'. js_buildTigrisSchema storage fuel c fc p W')
            forCollection parentFieldType schemaFields [] W
      | Throw e \<Rightarrow> Some (Throw e, W)
      | Beyond \<Rightarrow> Some (Beyond, W))"

text \<open>\<^verbatim>\<open>addPrimaryKeys\<close>: validation first, then the loop of lines 157 to 167.\<close>

fun js_add_pks :: "primary_key_metadata list \<Rightarrow> obj \<Rightarrow> obj \<Rightarrow> obj outcome \<times> obj" where
  "js_add_pks [] targetSchema W = (Done targetSchema, W)"
| "js_add_pks (pk # pks) targetSchema W =
     (let seeded = (if \<not> js_in (pk_name pk) targetSchema W
                    then obj_set (pk_name pk) (JObj [(''type'', JTag (pk_type pk))]) targetSchema
                    else targetSchema)
      in case js_set_prop (pk_name pk) ''primary_key'' (primary_key_attr pk) seeded W of
           (Done targetSchema', W') \<Rightarrow> js_add_pks pks targetSchema' W'
         | stopped \<Rightarrow> stopped)"

definition js_addPrimaryKeys ::
  "decorator_meta_storage \<Rightarrow> obj \<Rightarrow> class_ref \<Rightarrow> obj \<Rightarrow> obj outcome \<times> obj" where
  "js_addPrimaryKeys storage targetSchema collectionClass W =
     (let primaryKeysMetadata = getPKsByTarget storage collectionClass in
      case validatePrimaryKeysOrder primaryKeysMetadata collectionClass of
        Some e \<Rightarrow> (Throw e, W)
      | None \<Rightarrow> js_add_pks primaryKeysMetadata targetSchema W)"

section \<open>The entry points\<close>

record named_schema =
  schema_name :: string
  schema :: obj

text \<open>
  The outer \<open>option\<close> is \<open>None\<close> when building the schema gave nothing back; \<open>Inl\<close>
  is the error thrown by the augmenter.
\<close>

definition processIndex ::
  "decorator_meta_storage \<Rightarrow> nat \<Rightarrow> class_ref \<Rightarrow> named_schema option" where
  "processIndex storage fuel cls =
     (let index = getIndexByTarget storage cls in
      case buildTigrisSchema storage fuel (index_target index) False None of
        None \<Rightarrow> None
      | Some built \<Rightarrow> Some \<lparr>schema_name = indexName index, schema = built\<rparr>)"

definition processCollection ::
  "decorator_meta_storage \<Rightarrow> nat \<Rightarrow> class_ref \<Rightarrow> (error + named_schema) option" where
  "processCollection storage fuel cls =
     (let collection = getCollectionByTarget storage cls in
      case buildTigrisSchema storage fuel (target collection) True None of
        None \<Rightarrow> None
      | Some built \<Rightarrow>
          (case addPrimaryKeys storage built (target collection) of
             (augmented, Some e) \<Rightarrow> Some (Inl e)
           | (augmented, None) \<Rightarrow>
               Some (Inr \<lparr>schema_name = collectionName collection, schema = augmented\<rparr>)))"

text \<open>The entry points on the prototype chain.\<close>

definition js_processIndex ::
  "decorator_meta_storage \<Rightarrow> nat \<Rightarrow> class_ref \<Rightarrow> obj \<Rightarrow> (named_schema outcome \<times> obj) option" where
  "js_processIndex storage fuel cls W =
     (let index = getIndexByTarget storage cls in
      case js_buildTigrisSchema storage fuel (index_target index) False None W of
        None \<Rightarrow> None
      | Some (Done built, W') \<Rightarrow>
          Some (Done \<lparr>schema_name = indexName index, schema = built\<rparr>, W')
      | Some (Throw e, W') \<Rightarrow> Some (Throw e, W')
      | Some (Beyond, W') \<Rightarrow> Some (Beyond, W'))"

definition js_processCollection ::
  "decorator_meta_storage \<Rightarrow> nat \<Rightarrow> class_ref \<Rightarrow> obj \<Rightarrow> (named_schema outcome \<times> obj) option" where
  "js_processCollection storage fuel cls W =
     (let collection = getCollectionByTarget storage cls in
      case js_buildTigrisSchema storage fuel (target collection) True None W of
        None \<Rightarrow> None
      | Some (Done built, W') \<Rightarrow>
          (case js_addPrimaryKeys storage built (target collection) W' of
             (Done augmented, W'') \<Rightarrow>
               Some (Done \<lparr>schema_name = collectionName collection, schema = augmented\<rparr>, W'')
           | (Throw e, W'') \<Rightarrow> Some (Throw e, W'')
           | (Beyond, W'') \<Rightarrow> Some (Beyond, W''))
      | Some (Throw e, W') \<Rightarrow> Some (Throw e, W')
      | Some (Beyond, W') \<Rightarrow> Some (Beyond, W'))"

section \<open>Definitions used in the statements and proofs\<close>

text \<open>
  The nesting as the specification words it: \<open>n\<close> layers of
  \<^verbatim>\<open>{ type: ARRAY, items: <inner> }\<close> around the element descriptor.
\<close>

fun wrap_array :: "nat \<Rightarrow> json \<Rightarrow> json" where
  "wrap_array 0 inner = inner"
| "wrap_array (Suc n) inner = JObj [(''type'', JTag ARRAY), (''items'', wrap_array n inner)]"

text \<open>The store of \<^verbatim>\<open>buildNestedArray\<close> after \<open>k\<close> turns of its loop.\<close>

definition bna_cell :: "nat \<Rightarrow> (string \<times> hval) list" where
  "bna_cell i = [(''type'', HVal (JTag ARRAY)), (''items'', HRef (Suc i))]"

definition bna_chain :: "nat \<Rightarrow> heap" where
  "bna_chain k = map bna_cell [0..<k]"

definition bna_after :: "nat \<Rightarrow> int \<Rightarrow> bna_state" where
  "bna_after k d = \<lparr>heap = bna_chain k @ [[]], head = Some 0, prev = Some (k - 1),
                     nxt = Some k, depth = d\<rparr>"

definition bna_final :: "nat \<Rightarrow> json \<Rightarrow> heap" where
  "bna_final m items =
     bna_chain m @ [[(''type'', HVal (JTag ARRAY)), (''items'', HVal items)], []]"

fun node_options ::
  "obj \<Rightarrow> TigrisDataTypes \<Rightarrow> TigrisDataTypes option \<Rightarrow> schema_field_options list \<Rightarrow> obj \<Rightarrow> obj" where
  "node_options opts fieldType parent [] node = node"
| "node_options opts fieldType parent (opKey # rest) node =
     node_options opts fieldType parent rest
       (if schemaOptionSupported opts fieldType parent opKey
        then obj_set (attrName opKey) (obj_get opts (attrName opKey)) node
        else node)"

definition obj_nodes :: "obj \<Rightarrow> bool" where
  "obj_nodes s \<longleftrightarrow> (\<forall>k v. map_of s k = Some v \<longrightarrow> (\<exists>node. v = JObj node))"

definition effective_depth :: "field_metadata \<Rightarrow> int" where
  "effective_depth f = (case arrayDepth f of None \<Rightarrow> 1 | Some d \<Rightarrow> if d > 1 then d else 1)"

definition passed_parent :: "TigrisDataTypes option \<Rightarrow> TigrisDataTypes \<Rightarrow> TigrisDataTypes" where
  "passed_parent parent fieldType = (case parent of None \<Rightarrow> fieldType | Some p \<Rightarrow> p)"

definition element_descriptor ::
  "(class_ref \<Rightarrow> bool \<Rightarrow> TigrisDataTypes option \<Rightarrow> obj option)
     \<Rightarrow> bool \<Rightarrow> TigrisDataTypes option \<Rightarrow> field_metadata \<Rightarrow> json option" where
  "element_descriptor build fc parent f =
     (case embedType f of
        Some (EmbedClass c) \<Rightarrow>
          map_option (\<lambda>nested. JObj [(''type'', JObj nested)])
            (build c fc (Some (passed_parent parent (type f))))
      | Some (EmbedTag t) \<Rightarrow> Some (JObj [(''type'', JTag t)])
      | None \<Rightarrow> Some (JObj [(''type'', JUndefined)]))"

definition field_options :: "field_metadata \<Rightarrow> TigrisDataTypes option \<Rightarrow> obj \<Rightarrow> obj" where
  "field_options f parent node =
     (case schemaFieldOptions f of
        None \<Rightarrow> node
      | Some opts \<Rightarrow> node_options opts (type f) parent schemaOptions node)"


text \<open>
  The recursive call that a field makes, if it makes one, gives a schema back: the
  condition under which the body of the loop goes through for the field.
\<close>

definition nested_returns ::
  "(class_ref \<Rightarrow> bool \<Rightarrow> TigrisDataTypes option \<Rightarrow> obj option)
     \<Rightarrow> bool \<Rightarrow> TigrisDataTypes option \<Rightarrow> field_metadata \<Rightarrow> bool" where
  "nested_returns build fc parent f \<longleftrightarrow>
     (case embedType f of
        Some (EmbedClass c) \<Rightarrow>
          (type f = ARRAY \<or> type f = OBJECT)
            \<longrightarrow> build c fc (Some (passed_parent parent (type f))) \<noteq> None
      | _ \<Rightarrow> True)"

section \<open>A worked example\<close>

text \<open>
  A small metadata store on which the statements below are evaluated: a catalog with a
  title declared both as a collection field and as a search field, a three-dimensional
  array of strings, an array of items that embed a detail object, an embedded class with
  no fields, classes that only declare primary keys, and two classes that hold one of the
  catalog's fields each.
\<close>

definition Catalog :: class_ref where "Catalog = ClassRef 0 ''Catalog''"
definition Item :: class_ref where "Item = ClassRef 1 ''Item''"
definition Detail :: class_ref where "Detail = ClassRef 2 ''Detail''"
definition Empty :: class_ref where "Empty = ClassRef 3 ''Empty''"
definition HalfOrdered :: class_ref where "HalfOrdered = ClassRef 4 ''HalfOrdered''"
definition ZeroOrdered :: class_ref where "ZeroOrdered = ClassRef 5 ''ZeroOrdered''"
definition Holder :: class_ref where "Holder = ClassRef 6 ''Holder''"
definition Shelf :: class_ref where "Shelf = ClassRef 7 ''Shelf''"
definition SoleZero :: class_ref where "SoleZero = ClassRef 8 ''SoleZero''"

definition field ::
  "string \<Rightarrow> TigrisDataTypes \<Rightarrow> embed_type option \<Rightarrow> int option \<Rightarrow> obj option
     \<Rightarrow> field_metadata" where
  "field n t e d opts =
     \<lparr>name = n, type = t, embedType = e, arrayDepth = d, schemaFieldOptions = opts\<rparr>"

definition primary_key :: "string \<Rightarrow> TigrisDataTypes \<Rightarrow> int option \<Rightarrow> bool option
     \<Rightarrow> primary_key_metadata" where
  "primary_key n t ord gen =
     \<lparr>pk_name = n, pk_type = t, options = Some \<lparr>order = ord, autoGenerate = gen\<rparr>\<rparr>"

definition title_field :: field_metadata where
  "title_field = field ''title'' STRING None None (Some [(''default'', JNum 1)])"

definition title_search :: field_metadata where
  "title_search =
     field ''title'' STRING None None (Some [(''default'', JNum 2), (''facet'', JBool True)])"

definition tags_field :: field_metadata where
  "tags_field = field ''tags'' ARRAY (Some (EmbedTag STRING)) (Some 3) None"

definition items_field :: field_metadata where
  "items_field = field ''items'' ARRAY (Some (EmbedClass Item)) None None"

definition meta_field :: field_metadata where
  "meta_field = field ''meta'' OBJECT (Some (EmbedClass Empty)) None (Some [(''default'', JNum 5)])"

definition detail_field :: field_metadata where
  "detail_field = field ''detail'' OBJECT (Some (EmbedClass Detail)) None None"

definition label_field :: field_metadata where
  "label_field = field ''label'' STRING None None (Some [(''searchIndex'', JBool True)])"

definition example_storage :: decorator_meta_storage where
  "example_storage =
     \<lparr>getIndexByTarget = (\<lambda>c. \<lparr>index_target = c, indexName = class_name c\<rparr>),
      getCollectionByTarget = (\<lambda>c. \<lparr>target = c, collectionName = class_name c\<rparr>),
      getSearchFieldsByTarget =
        (\<lambda>c. if c = Catalog then [title_search, items_field, meta_field]
             else if c = Holder then [meta_field]
             else if c = Shelf then [items_field]
             else if c = Item then [detail_field]
             else if c = Detail then [label_field]
             else []),
      getCollectionFieldsByTarget =
        (\<lambda>c. if c = Catalog then [title_field, tags_field] else []),
      getPKsByTarget =
        (\<lambda>c. if c = Catalog
             then [primary_key ''id'' INT32 (Some 1) (Some True),
                   primary_key ''region'' STRING (Some 2) None]
             else if c = HalfOrdered
             then [primary_key ''a'' STRING (Some 1) None,
                   primary_key ''b'' STRING None None]
             else if c = ZeroOrdered
             then [primary_key ''a'' STRING (Some 0) None,
                   primary_key ''b'' STRING (Some 1) None]
             else if c = SoleZero
             then [primary_key ''a'' STRING (Some 0) None]
             else [])\<rparr>"

section \<open>Nested fields in the output\<close>

text \<open>
  The schema that a container node embeds: behind \<open>n\<close> array wrappers, the \<open>type\<close>
  of the element descriptor; for an object node (\<open>n = 0\<close>), its \<open>type\<close>.
\<close>

fun embedded_schema :: "nat \<Rightarrow> json \<Rightarrow> json option" where
  "embedded_schema 0 node = (case node of JObj ob \<Rightarrow> map_of ob ''type'' | _ \<Rightarrow> None)"
| "embedded_schema (Suc n) node =
     (case node of
        JObj ob \<Rightarrow> (case map_of ob ''items'' of
                      None \<Rightarrow> None
                    | Some inner \<Rightarrow> embedded_schema n inner)
      | _ \<Rightarrow> None)"

definition wrappers_of :: "field_metadata \<Rightarrow> nat" where
  "wrappers_of f = (if type f = ARRAY then nat (effective_depth f) else 0)"

text \<open>Going down the output along a chain of container fields, outermost first.\<close>

fun descend :: "obj \<Rightarrow> field_metadata list \<Rightarrow> obj option" where
  "descend built [] = Some built"
| "descend built (f # fs) =
     (case map_of built (name f) of
        None \<Rightarrow> None
      | Some node \<Rightarrow>
          (case embedded_schema (wrappers_of f) node of
             Some (JObj sub) \<Rightarrow> descend sub fs
           | _ \<Rightarrow> None))"

text \<open>
  The same chain in the metadata: each field is an ARRAY or OBJECT field of the class
  reached so far and embeds the next class; the result is the innermost class.
\<close>

fun container_path ::
  "decorator_meta_storage \<Rightarrow> bool \<Rightarrow> class_ref \<Rightarrow> field_metadata list \<Rightarrow> class_ref option" where
  "container_path storage fc cls [] = Some cls"
| "container_path storage fc cls (f # fs) =
     (if f \<in> set (getSchemaFields storage cls fc) \<and> (type f = ARRAY \<or> type f = OBJECT)
      then (case embedType f of
              Some (EmbedClass c) \<Rightarrow> container_path storage fc c fs
            | _ \<Rightarrow> None)
      else None)"

text \<open>The parent type that the builder tracks along a chain of containers.\<close>

fun tracked_parent :: "TigrisDataTypes option \<Rightarrow> field_metadata list \<Rightarrow> TigrisDataTypes option" where
  "tracked_parent parent [] = parent"
| "tracked_parent parent (f # fs) =
     tracked_parent (Some (passed_parent parent (type f))) fs"

section \<open>Names and the prototype chain\<close>

text \<open>
  \<^verbatim>\<open>Object.prototype\<close> with nothing added to it; a name that no object inherits; a
  name that the lookup array does not inherit either.
\<close>

definition unextended :: "obj \<Rightarrow> bool" where
  "unextended W \<longleftrightarrow> list_all (\<lambda>p. fst p \<in> set object_members) W"

definition ordinary :: "string \<Rightarrow> bool" where
  "ordinary k \<longleftrightarrow> k \<noteq> ''__proto__'' \<and> k \<notin> set object_members"

definition plain :: "string \<Rightarrow> bool" where
  "plain k \<longleftrightarrow> ordinary k \<and> k \<noteq> ''length'' \<and> k \<notin> set array_members"

text \<open>
  The fields of a class have such names: in collection mode, where the names go through
  the lookup array, the names of both lists are plain; in index mode the names of the
  search fields are ordinary.
\<close>

definition plain_fields :: "decorator_meta_storage \<Rightarrow> bool \<Rightarrow> class_ref \<Rightarrow> bool" where
  "plain_fields storage fc cls \<longleftrightarrow>
     (if fc
      then list_all (\<lambda>f. plain (name f))
             (getSearchFieldsByTarget storage cls @ getCollectionFieldsByTarget storage cls)
      else list_all (\<lambda>f. ordinary (name f)) (getSearchFieldsByTarget storage cls))"

text \<open>
  The two embeddings of the builder agree: a schema on own properties is the same schema
  on the prototype chain, with \<open>W\<close> as it was; no schema on own properties, which is a
  recursion without end or a \<^verbatim>\<open>TypeError\<close>, is one of the two on the prototype chain.
\<close>

definition agrees :: "obj option \<Rightarrow> (obj outcome \<times> obj) option \<Rightarrow> obj \<Rightarrow> bool" where
  "agrees own chained W \<longleftrightarrow>
     (case own of
        Some s \<Rightarrow> chained = Some (Done s, W)
      | None \<Rightarrow> chained = None \<or> chained = Some (Throw TypeError, W))"

text \<open>
  The recursive call that a field makes, if it makes one, comes to a schema on the
  prototype chain.
\<close>

definition js_nested_returns ::
  "(class_ref \<Rightarrow> bool \<Rightarrow> TigrisDataTypes option \<Rightarrow> obj \<Rightarrow> (obj outcome \<times> obj) option)
     \<Rightarrow> bool \<Rightarrow> TigrisDataTypes option \<Rightarrow> field_metadata \<Rightarrow> obj \<Rightarrow> bool" where
  "js_nested_returns build fc parent f W \<longleftrightarrow>
     (case embedType f of
        Some (EmbedClass c) \<Rightarrow>
          (type f = ARRAY \<or> type f = OBJECT)
            \<longrightarrow> (case build c fc (Some (passed_parent parent (type f))) W of
                   Some (Done nested, W') \<Rightarrow> True
                 | _ \<Rightarrow> False)
      | _ \<Rightarrow> True)"

text \<open>The descriptor that line 211 pushes for a collection field.\<close>

definition merged_field :: "lookup \<Rightarrow> obj \<Rightarrow> field_metadata \<Rightarrow> field_metadata" where
  "merged_field l W cf =
     (case js_merge_collection_field l W cf of Done merged \<Rightarrow> merged | _ \<Rightarrow> cf)"

text \<open>
  Two further stores. In the first a class has a field called \<open>default\<close> and a field
  called \<^verbatim>\<open>__proto__\<close> whose option bag holds \<open>default\<close>, and another class has a
  search field called \<^verbatim>\<open>length\<close>. In the second the search fields of a class declare
  the name \<open>title\<close> twice.
\<close>

definition Polluter :: class_ref where "Polluter = ClassRef 9 ''Polluter''"
definition Measured :: class_ref where "Measured = ClassRef 10 ''Measured''"

definition polluting_storage :: decorator_meta_storage where
  "polluting_storage =
     \<lparr>getIndexByTarget = (\<lambda>c. \<lparr>index_target = c, indexName = class_name c\<rparr>),
      getCollectionByTarget = (\<lambda>c. \<lparr>target = c, collectionName = class_name c\<rparr>),
      getSearchFieldsByTarget =
        (\<lambda>c. if c = Polluter
             then [field ''default'' STRING None None None,
                   field ''__proto__'' STRING None None (Some [(''default'', JNum 5)])]
             else if c = Measured
             then [field ''length'' NUMBER None None None]
             else []),
      getCollectionFieldsByTarget = (\<lambda>c. []),
      getPKsByTarget = (\<lambda>c. [])\<rparr>"


section \<open>Option applicability\<close>

lemma row_supported_iff:
  "attrName row = a \<Longrightarrow>
   (\<And>t. t \<in> doesNotApplyTo row \<longleftrightarrow> table_blocked a t None) \<Longrightarrow>
   (\<And>t p. p \<in> doesNotApplyToParent row \<or> t \<in> doesNotApplyTo row
            \<longleftrightarrow> table_blocked a t (Some p)) \<Longrightarrow>
   schemaOptionSupported opts fieldType parent row \<longleftrightarrow>
     obj_has (attrName row) opts \<and> \<not> table_blocked (attrName row) fieldType parent"
  by (cases parent) (auto simp: schemaOptionSupported_def)

lemma tb_default: "table_blocked ''default'' t p = False"
  by (simp add: table_blocked_def spec_blocked_def)

lemma tb_timestamp: "table_blocked ''timestamp'' t p = (t = OBJECT)"
  by (simp add: table_blocked_def spec_blocked_def)

lemma tb_searchIndex: "table_blocked ''searchIndex'' t p = (t = OBJECT \<or> p = Some ARRAY)"
  by (simp add: table_blocked_def spec_blocked_def)

lemma tb_sort: "table_blocked ''sort'' t p = (t = OBJECT \<or> p = Some ARRAY)"
  by (simp add: table_blocked_def spec_blocked_def)

lemma tb_facet: "table_blocked ''facet'' t p = (t = OBJECT \<or> p = Some ARRAY)"
  by (simp add: table_blocked_def spec_blocked_def)

lemma tb_dimensions:
  "table_blocked ''dimensions'' t p = (t \<in> {OBJECT, NUMBER} \<or> p = Some ARRAY)"
  by (auto simp add: table_blocked_def spec_blocked_def)

lemma tb_id:
  "table_blocked ''id'' t p =
     (t \<in> {OBJECT, ARRAY, NUMBER, BOOLEAN, NUMBER_BIGINT, INT64, INT32, DATE_TIME}
      \<or> p = Some ARRAY)"
  by (auto simp add: table_blocked_def spec_blocked_def)

lemma tb_index:
  "table_blocked ''index'' t p = (t \<in> {OBJECT, ARRAY} \<or> p \<in> {Some ARRAY, Some OBJECT})"
  by (auto simp add: table_blocked_def spec_blocked_def)

lemmas table_blocked_rows =
  tb_default tb_timestamp tb_searchIndex tb_sort tb_facet tb_dimensions tb_id tb_index

text \<open>
  C2 (as amended). For each of the eight rows of the table, the attribute is attached
  exactly when it is present in the option bag and the combination is not blocked, where
  the blocked combinations are the ones the specification lists and, besides them,
  \<open>index\<close> on an ARRAY-typed field (and \<open>index\<close> under an ARRAY parent as well as under
  an OBJECT parent). \<open>default\<close> is never blocked.
\<close>

theorem option_table_blocks_exactly:
  assumes "row \<in> set schemaOptions"
  shows "schemaOptionSupported opts fieldType parent row \<longleftrightarrow>
           obj_has (attrName row) opts \<and> \<not> table_blocked (attrName row) fieldType parent"
proof -
  let ?P = "\<lambda>row. schemaOptionSupported opts fieldType parent row \<longleftrightarrow>
           obj_has (attrName row) opts \<and> \<not> table_blocked (attrName row) fieldType parent"
  have 1: "?P \<lparr>attrName = ''default'', doesNotApplyTo = {}, doesNotApplyToParent = {}\<rparr>"
    by (rule row_supported_iff [where a="''default''"]) (auto simp: table_blocked_rows)
  have 2: "?P \<lparr>attrName = ''timestamp'', doesNotApplyTo = {OBJECT},
        doesNotApplyToParent = {}\<rparr>"
    by (rule row_supported_iff [where a="''timestamp''"]) (auto simp: table_blocked_rows)
  have 3: "?P \<lparr>attrName = ''searchIndex'', doesNotApplyTo = {OBJECT},
        doesNotApplyToParent = {ARRAY}\<rparr>"
    by (rule row_supported_iff [where a="''searchIndex''"]) (auto simp: table_blocked_rows)
  have 4: "?P \<lparr>attrName = ''sort'', doesNotApplyTo = {OBJECT},
        doesNotApplyToParent = {ARRAY}\<rparr>"
    by (rule row_supported_iff [where a="''sort''"]) (auto simp: table_blocked_rows)
  have 5: "?P \<lparr>attrName = ''facet'', doesNotApplyTo = {OBJECT},
        doesNotApplyToParent = {ARRAY}\<rparr>"
    by (rule row_supported_iff [where a="''facet''"]) (auto simp: table_blocked_rows)
  have 6: "?P \<lparr>attrName = ''dimensions'', doesNotApplyTo = {OBJECT, NUMBER},
        doesNotApplyToParent = {ARRAY}\<rparr>"
    by (rule row_supported_iff [where a="''dimensions''"]) (auto simp: table_blocked_rows)
  have 7: "?P \<lparr>attrName = ''id'',
        doesNotApplyTo =
          {OBJECT, ARRAY, NUMBER, BOOLEAN, NUMBER_BIGINT, INT64, INT32, DATE_TIME},
        doesNotApplyToParent = {ARRAY}\<rparr>"
    by (rule row_supported_iff [where a="''id''"]) (auto simp: table_blocked_rows)
  have 8: "?P \<lparr>attrName = ''index'', doesNotApplyTo = {OBJECT, ARRAY},
        doesNotApplyToParent = {ARRAY, OBJECT}\<rparr>"
    by (rule row_supported_iff [where a="''index''"]) (auto simp: table_blocked_rows)
  have "list_all ?P schemaOptions"
    by (simp only: schemaOptions_def list.pred_inject 1 2 3 4 5 6 7 8 simp_thms)
  then have "\<forall>row\<in>set schemaOptions. ?P row"
    by (simp only: list_all_iff)
  with assms show ?thesis
    by blast
qed

theorem option_table_blocks_exactly_witness:
  "\<lparr>attrName = ''index'', doesNotApplyTo = {OBJECT, ARRAY},
     doesNotApplyToParent = {ARRAY, OBJECT}\<rparr> \<in> set schemaOptions
   \<and> \<not> schemaOptionSupported [(''index'', JBool True)] ARRAY None
         \<lparr>attrName = ''index'', doesNotApplyTo = {OBJECT, ARRAY},
          doesNotApplyToParent = {ARRAY, OBJECT}\<rparr>
   \<and> schemaOptionSupported [(''index'', JBool True)] STRING None
         \<lparr>attrName = ''index'', doesNotApplyTo = {OBJECT, ARRAY},
          doesNotApplyToParent = {ARRAY, OBJECT}\<rparr>"
proof -
  let ?row = "\<lparr>attrName = ''index'', doesNotApplyTo = {OBJECT, ARRAY},
                doesNotApplyToParent = {ARRAY, OBJECT}\<rparr>"
  have h: "?row \<in> set schemaOptions"
    by (simp add: schemaOptions_def)
  have a: "attrName ?row = ''index''" by simp
  have b: "obj_has ''index'' [(''index'', JBool True)]" by (simp add: obj_has_def)
  have c: "table_blocked ''index'' ARRAY None" by (simp add: table_blocked_def)
  have d: "\<not> table_blocked ''index'' STRING None"
    by (simp add: table_blocked_def spec_blocked_def)
  show ?thesis
    using h option_table_blocks_exactly [OF h, of "[(''index'', JBool True)]" ARRAY None]
      option_table_blocks_exactly [OF h, of "[(''index'', JBool True)]" STRING None]
    by (simp only: a b c d simp_thms)
qed

text \<open>
  C2 (as stated) fails: \<open>index\<close> on an ARRAY-typed field with no tracked parent is not
  among the listed combinations, yet the table of the source blocks it.
\<close>

theorem listed_combinations_miss_index_on_array:
  "obj_has ''index'' [(''index'', JBool True)]
   \<and> \<not> spec_blocked ''index'' ARRAY None
   \<and> \<not> schemaOptionSupported [(''index'', JBool True)] ARRAY None
         \<lparr>attrName = ''index'', doesNotApplyTo = {OBJECT, ARRAY},
          doesNotApplyToParent = {ARRAY, OBJECT}\<rparr>"
  by (simp add: obj_has_def spec_blocked_def schemaOptionSupported_def)

section \<open>Nested arrays: the loop builds the wrappers\<close>

lemma bna_chain_length [simp]: "length (bna_chain k) = k"
  by (simp add: bna_chain_def)

lemma bna_chain_Suc: "bna_chain (Suc k) = bna_chain k @ [bna_cell k]"
  by (simp add: bna_chain_def)

lemma bna_step_first:
  "bna_step \<lparr>heap = [], head = None, prev = None, nxt = None, depth = d\<rparr>
     = Some (bna_after 1 (d - 1))"
  by (simp add: bna_step_def alloc_def heap_set_def bna_after_def bna_chain_def bna_cell_def)

lemma bna_step_next: "bna_step (bna_after k d) = Some (bna_after (Suc k) (d - 1))"
  by (simp add: bna_step_def alloc_def heap_set_def bna_after_def bna_chain_Suc bna_cell_def
      nth_append list_update_append)

lemma bna_depth_after [simp]: "depth (bna_after k d) = d"
  by (simp add: bna_after_def)

lemma bna_loop_after: "bna_loop (bna_after k (int n)) = Some (bna_after (k + n) 0)"
proof (induction n arbitrary: k)
  case 0
  show ?case by (subst bna_loop.simps) simp
next
  case (Suc n)
  have "bna_loop (bna_after k (int (Suc n))) = bna_loop (bna_after (Suc k) (int n))"
    by (subst bna_loop.simps) (simp add: bna_step_next)
  then show ?case using Suc.IH [of "Suc k"] by simp
qed

lemma bna_loop_init:
  assumes "0 < d"
  shows "bna_loop \<lparr>heap = [], head = None, prev = None, nxt = None, depth = d\<rparr>
           = Some (bna_after (nat d) 0)"
proof -
  obtain n where d: "d = int (Suc n)"
    using assms by (cases "nat d") (auto simp: nat_eq_iff)
  have "bna_loop \<lparr>heap = [], head = None, prev = None, nxt = None, depth = d\<rparr>
          = bna_loop (bna_after 1 (int n))"
    using assms by (subst bna_loop.simps) (simp add: bna_step_first d)
  moreover have "nat d = Suc n"
    by (simp add: d)
  ultimately show ?thesis
    using bna_loop_after [of 1 n] by simp
qed

lemma bna_final_heap:
  "heap_set (heap (bna_after (Suc m) 0)) m ''items'' (HVal items) = bna_final m items"
  by (simp add: heap_set_def bna_after_def bna_chain_Suc bna_final_def bna_cell_def
      list_update_append nth_append)

lemma reify_bna_final:
  "i + j = m \<Longrightarrow> j < fuel \<Longrightarrow>
     reify (bna_final m items) fuel i = Some (wrap_array (Suc j) items)"
proof (induction j arbitrary: i fuel)
  case 0
  then obtain f where f: "fuel = Suc f" by (cases fuel) auto
  from 0 have i: "i = m" by simp
  show ?case
    by (simp add: f i bna_final_def nth_append)
next
  case (Suc j)
  then obtain f where f: "fuel = Suc f" by (cases fuel) auto
  from Suc.prems have i: "i < m" "Suc i + j = m" "j < f" by (auto simp: f)
  have cell: "bna_final m items ! i = bna_cell i"
    using i by (simp add: bna_final_def nth_append bna_chain_def)
  have len: "i < length (bna_final m items)"
    using i by (simp add: bna_final_def)
  show ?case
    using Suc.IH [OF i(2) i(3)] len
    by (simp add: f cell bna_cell_def)
qed

lemma buildNestedArray_wraps:
  assumes "0 < d"
  shows "buildNestedArray items d = Some (wrap_array (nat d) items)"
proof -
  obtain m where m: "nat d = Suc m"
    using assms by (cases "nat d") auto
  have "reify (bna_final m items) (length (bna_final m items)) 0
          = Some (wrap_array (Suc m) items)"
    by (rule reify_bna_final) (simp_all add: bna_final_def)
  moreover have "bna_loop \<lparr>heap = [], head = None, prev = None, nxt = None, depth = d\<rparr>
           = Some (bna_after (Suc m) 0)"
    using bna_loop_init [OF assms] by (simp add: m)
  moreover have "prev (bna_after (Suc m) 0) = Some m" "head (bna_after (Suc m) 0) = Some 0"
    by (simp_all add: bna_after_def)
  ultimately show ?thesis
    by (simp add: buildNestedArray_def m bna_final_heap)
qed

section \<open>Objects and the option loop\<close>

lemma map_of_obj_set [simp]: "map_of (obj_set k v ob) = (map_of ob)(k \<mapsto> v)"
  by (induction ob) (auto simp: fun_eq_iff)

lemma obj_has_obj_set [simp]: "obj_has k' (obj_set k v ob) \<longleftrightarrow> k' = k \<or> obj_has k' ob"
  by (simp add: obj_has_def)

lemma obj_has_Nil [simp]: "\<not> obj_has k []"
  by (simp add: obj_has_def)

lemma obj_has_keys: "obj_has k ob \<longleftrightarrow> k \<in> fst ` set ob"
  by (simp add: obj_has_def map_of_eq_None_iff)

lemma keys_obj_set [simp]: "fst ` set (obj_set k v ob) = insert k (fst ` set ob)"
  by (induction ob) auto

lemma obj_set_twice [simp]: "obj_set k v (obj_set k w ob) = obj_set k v ob"
  by (induction ob) auto

lemma obj_set_same: "map_of ob k = Some v \<Longrightarrow> obj_set k v ob = ob"
  by (induction ob) (auto split: if_splits)

lemma obj_set_not_Nil [simp]: "obj_set k v ob \<noteq> []"
  by (cases ob) auto

lemma set_prop_Some:
  "map_of s key = Some (JObj node) \<Longrightarrow>
     set_prop key attr v s = Some (obj_set key (JObj (obj_set attr v node)) s)"
  by (simp add: set_prop_def)

lemma set_prop_SomeD:
  "set_prop key attr v s = Some s' \<Longrightarrow>
     \<exists>node. map_of s key = Some (JObj node) \<and> s' = obj_set key (JObj (obj_set attr v node)) s"
  by (auto simp: set_prop_def split: option.splits json.splits)

lemma attach_options_node:
  "map_of s key = Some (JObj node) \<Longrightarrow>
     attach_options opts ft p key rows s
       = Some (obj_set key (JObj (node_options opts ft p rows node)) s)"
proof (induction rows arbitrary: s node)
  case Nil
  then show ?case by (simp add: obj_set_same)
next
  case (Cons row rows)
  show ?case
  proof (cases "schemaOptionSupported opts ft p row")
    case True
    let ?n = "obj_set (attrName row) (obj_get opts (attrName row)) node"
    let ?s = "obj_set key (JObj ?n) s"
    have "map_of ?s key = Some (JObj ?n)" by simp
    from Cons.IH [OF this] show ?thesis
      using True Cons.prems by (simp add: set_prop_Some)
  next
    case False
    then show ?thesis using Cons.IH [OF Cons.prems] by simp
  qed
qed

lemma attach_options_SomeD:
  "attach_options opts ft p key rows s = Some s' \<Longrightarrow>
     (\<exists>node. map_of s key = Some (JObj node)
             \<and> s' = obj_set key (JObj (node_options opts ft p rows node)) s)
     \<or> s' = s"
proof (induction rows arbitrary: s)
  case Nil
  then show ?case by simp
next
  case (Cons row rows)
  show ?case
  proof (cases "schemaOptionSupported opts ft p row")
    case True
    with Cons.prems obtain s1 where
      s1: "set_prop key (attrName row) (obj_get opts (attrName row)) s = Some s1"
      by (auto split: option.splits)
    then obtain node where "map_of s key = Some (JObj node)"
      by (auto dest: set_prop_SomeD)
    then show ?thesis
      using Cons.prems attach_options_node [of s key node opts ft p "row # rows"] by simp
  next
    case False
    then show ?thesis using Cons.IH [of s] Cons.prems by simp
  qed
qed

lemma node_options_other:
  "k \<notin> attrName ` set rows \<Longrightarrow> map_of (node_options opts ft p rows node) k = map_of node k"
  by (induction rows arbitrary: node) auto

lemma node_options_has:
  "obj_has a (node_options opts ft p rows node) \<longleftrightarrow>
     obj_has a node \<or> (\<exists>row\<in>set rows. attrName row = a \<and> schemaOptionSupported opts ft p row)"
  by (induction rows arbitrary: node) auto

lemma effective_depth_pos: "0 < effective_depth f"
  by (simp add: effective_depth_def split: option.split)

lemma wrap_array_effective_depth:
  "wrap_array (nat (effective_depth f)) elem
     = JObj [(''type'', JTag ARRAY),
             (''items'', wrap_array (nat (effective_depth f) - 1) elem)]"
proof -
  obtain m where "nat (effective_depth f) = Suc m"
    using effective_depth_pos [of f] by (cases "nat (effective_depth f)") auto
  then show ?thesis by simp
qed

lemma attach_field_options:
  "map_of s (name f) = Some (JObj node) \<Longrightarrow>
     (case schemaFieldOptions f of
        None \<Rightarrow> Some s
      | Some opts \<Rightarrow> attach_options opts (type f) p (name f) schemaOptions s)
       = Some (obj_set (name f) (JObj (field_options f p node)) s)"
  by (simp add: field_options_def attach_options_node obj_set_same split: option.split)

lemma process_field_array:
  assumes "type f = ARRAY" and "\<not> obj_has (name f) s"
  shows "process_field build fc p f s =
           (case element_descriptor build fc p f of
              None \<Rightarrow> None
            | Some elem \<Rightarrow>
                Some (obj_set (name f)
                       (JObj (field_options f p
                                [(''type'', JTag ARRAY),
                                 (''items'', wrap_array (nat (effective_depth f) - 1) elem)]))
                       s))"
proof (cases "element_descriptor build fc p f")
  case None
  then show ?thesis
    using assms
    by (simp add: process_field_def switch_field_def element_descriptor_def passed_parent_def Let_def
        split: option.splits embed_type.splits)
next
  case (Some elem)
  let ?base = "[(''type'', JTag ARRAY),
                (''items'', wrap_array (nat (effective_depth f) - 1) elem)]"
  let ?s2 = "obj_set (name f) (JObj ?base)
               (obj_set (name f) (JObj [(''type'', JTag (type f))]) s)"
  have d: "(case arrayDepth f of None \<Rightarrow> 1 | Some d \<Rightarrow> if d \<noteq> 0 \<and> d > 1 then d else 1)
             = effective_depth f"
    by (simp add: effective_depth_def split: option.split)
  have nested: "buildNestedArray elem (effective_depth f) = Some (JObj ?base)"
    using buildNestedArray_wraps [OF effective_depth_pos, of elem f]
      wrap_array_effective_depth [of f elem]
    by (simp only:)
  have el: "(case embedType f of
               Some (EmbedClass c) \<Rightarrow>
                 map_option (\<lambda>nested. JObj [(''type'', JObj nested)])
                   (build c fc (Some (case p of None \<Rightarrow> type f | Some p \<Rightarrow> p)))
             | Some (EmbedTag t) \<Rightarrow> Some (JObj [(''type'', JTag t)])
             | None \<Rightarrow> Some (JObj [(''type'', JUndefined)])) = Some elem"
    using Some
    by (simp add: element_descriptor_def passed_parent_def
        split: option.splits embed_type.splits)
  show ?thesis
    using assms
    by (simp add: process_field_def switch_field_def Let_def d el nested Some field_options_def
        attach_options_node split: option.split)
qed

lemma process_field_object:
  assumes "type f = OBJECT" and "embedType f = Some (EmbedClass c)"
    and "\<not> obj_has (name f) s"
  shows "process_field build fc p f s =
           (case build c fc (Some (passed_parent p OBJECT)) of
              None \<Rightarrow> None
            | Some nested \<Rightarrow>
                Some (obj_set (name f)
                       (JObj (field_options f p
                                [(''type'', if length nested > 0 then JObj nested
                                            else JTag OBJECT)]))
                       s))"
  using assms
  by (simp add: process_field_def switch_field_def Let_def passed_parent_def field_options_def
      attach_options_node split: option.split)

lemma process_field_object_plain:
  assumes "type f = OBJECT" and "\<forall>c. embedType f \<noteq> Some (EmbedClass c)"
    and "\<not> obj_has (name f) s"
  shows "process_field build fc p f s =
           Some (obj_set (name f) (JObj (field_options f p [(''type'', JTag OBJECT)])) s)"
  using assms
  by (simp add: process_field_def switch_field_def Let_def field_options_def
      attach_options_node split: option.split embed_type.split)

lemma process_field_string:
  assumes "type f = STRING" and "\<not> obj_has (name f) s"
  shows "process_field build fc p f s =
           Some (obj_set (name f)
                  (JObj (field_options f p
                           (case schemaFieldOptions f of
                              None \<Rightarrow> [(''type'', JTag STRING)]
                            | Some opts \<Rightarrow>
                                if obj_has ''maxLength'' opts
                                then [(''type'', JTag STRING),
                                      (''maxLength'', obj_get opts ''maxLength'')]
                                else [(''type'', JTag STRING)])))
                  s)"
  using assms
  by (simp add: process_field_def switch_field_def Let_def field_options_def set_prop_Some
      attach_options_node split: option.split)

lemma process_field_scalar:
  assumes "type f \<noteq> ARRAY" and "type f \<noteq> OBJECT" and "type f \<noteq> STRING"
    and "\<not> obj_has (name f) s"
  shows "process_field build fc p f s =
           Some (obj_set (name f) (JObj (field_options f p [(''type'', JTag (type f))])) s)"
  using assms
  by (cases "type f")
     (simp_all add: process_field_def switch_field_def Let_def field_options_def
        attach_options_node split: option.split)

lemma fresh_shapeI:
  "fst ` set base \<subseteq> K \<Longrightarrow>
     \<exists>b. obj_set k (JObj (field_options f p base)) s = obj_set k (JObj (field_options f p b)) s
         \<and> fst ` set b \<subseteq> K"
  by blast

lemma process_field_fresh_shape:
  assumes "\<not> obj_has (name f) s" and "process_field build fc p f s = Some s'"
  shows "\<exists>base. s' = obj_set (name f) (JObj (field_options f p base)) s
              \<and> fst ` set base \<subseteq> {''type'', ''items'', ''maxLength''}"
proof -
  consider "type f = ARRAY" | "type f = OBJECT" "\<exists>c. embedType f = Some (EmbedClass c)"
    | "type f = OBJECT" "\<forall>c. embedType f \<noteq> Some (EmbedClass c)" | "type f = STRING"
    | "type f \<noteq> ARRAY" "type f \<noteq> OBJECT" "type f \<noteq> STRING"
    by blast
  then show ?thesis
  proof cases
    case 1
    with assms show ?thesis
      by (auto simp: process_field_array split: option.splits intro!: fresh_shapeI)
  next
    case 2
    with assms show ?thesis
      by (auto simp: process_field_object split: option.splits if_splits intro!: fresh_shapeI)
  next
    case 3
    with assms show ?thesis
      by (auto simp: process_field_object_plain intro!: fresh_shapeI)
  next
    case 4
    with assms show ?thesis
      by (auto simp: process_field_string split: option.splits if_splits intro!: fresh_shapeI)
  next
    case 5
    with assms show ?thesis
      by (auto simp: process_field_scalar intro!: fresh_shapeI)
  qed
qed

lemma set_prop_other:
  "set_prop key attr v s = Some s' \<Longrightarrow> k \<noteq> key \<Longrightarrow> map_of s' k = map_of s k"
  by (auto dest!: set_prop_SomeD)

lemma attach_options_other:
  "attach_options opts ft p key rows s = Some s' \<Longrightarrow> k \<noteq> key \<Longrightarrow> map_of s' k = map_of s k"
  by (auto dest!: attach_options_SomeD)

lemma switch_field_other:
  assumes "switch_field build fc p f s = Some s'" and "k \<noteq> name f"
  shows "map_of s' k = map_of s k"
  using assms
  by (cases "type f")
     (auto simp: switch_field_def Let_def split: option.splits embed_type.splits if_splits
        dest: set_prop_other)

lemma process_field_stages:
  assumes "process_field build fc p f s = Some s'"
  obtains s2 where
    "switch_field build fc p f
       (if \<not> obj_has (name f) s
        then obj_set (name f) (JObj [(''type'', JTag (type f))]) s else s) = Some s2"
    and "(case schemaFieldOptions f of None \<Rightarrow> Some s2
          | Some opts \<Rightarrow> attach_options opts (type f) p (name f) schemaOptions s2) = Some s'"
  using assms by (auto simp: process_field_def Let_def split: option.splits)

lemma process_field_other:
  assumes "process_field build fc p f s = Some s'" and k: "k \<noteq> name f"
  shows "map_of s' k = map_of s k"
proof -
  from assms(1) obtain s2 where
    sw: "switch_field build fc p f
           (if \<not> obj_has (name f) s
            then obj_set (name f) (JObj [(''type'', JTag (type f))]) s else s) = Some s2"
    and att: "(case schemaFieldOptions f of None \<Rightarrow> Some s2
               | Some opts \<Rightarrow> attach_options opts (type f) p (name f) schemaOptions s2)
              = Some s'"
    by (rule process_field_stages)
  have "map_of s2 k = map_of s k"
    using switch_field_other [OF sw k] k by simp
  moreover have "map_of s' k = map_of s2 k"
    using att k by (auto split: option.splits dest: attach_options_other)
  ultimately show ?thesis by simp
qed

lemma switch_field_has:
  assumes "switch_field build fc p f s = Some s'" and "obj_has k s"
  shows "obj_has k s'"
  using assms
  by (cases "type f")
     (auto simp: switch_field_def Let_def split: option.splits embed_type.splits if_splits
        dest!: set_prop_SomeD)

lemma attach_options_has:
  "attach_options opts ft p key rows s = Some s' \<Longrightarrow> obj_has k s \<Longrightarrow> obj_has k s'"
  by (auto dest!: attach_options_SomeD)

lemma process_field_has:
  assumes "process_field build fc p f s = Some s'"
  shows "obj_has (name f) s'" and "obj_has k s \<Longrightarrow> obj_has k s'"
proof -
  let ?s1 = "if \<not> obj_has (name f) s
             then obj_set (name f) (JObj [(''type'', JTag (type f))]) s else s"
  from assms obtain s2 where sw: "switch_field build fc p f ?s1 = Some s2"
    and att: "(case schemaFieldOptions f of None \<Rightarrow> Some s2
               | Some opts \<Rightarrow> attach_options opts (type f) p (name f) schemaOptions s2)
              = Some s'"
    by (rule process_field_stages)
  have a: "\<And>k. obj_has k s2 \<Longrightarrow> obj_has k s'"
    using att by (auto split: option.splits dest: attach_options_has)
  have "obj_has (name f) ?s1" by simp
  then show "obj_has (name f) s'"
    using switch_field_has [OF sw] a by blast
  assume "obj_has k s"
  then have "obj_has k ?s1" by simp
  then show "obj_has k s'"
    using switch_field_has [OF sw] a by blast
qed

lemma process_fields_other:
  "process_fields build fc p fs s = Some s' \<Longrightarrow> k \<notin> name ` set fs \<Longrightarrow>
     map_of s' k = map_of s k"
proof (induction fs arbitrary: s)
  case Nil
  then show ?case by simp
next
  case (Cons f fs)
  from Cons.prems obtain s1 where 1: "process_field build fc p f s = Some s1"
    and 2: "process_fields build fc p fs s1 = Some s'"
    by (auto split: option.splits)
  from Cons.prems have "k \<noteq> name f" "k \<notin> name ` set fs" by auto
  then show ?case
    using Cons.IH [OF 2] process_field_other [OF 1] by simp
qed

lemma process_fields_append:
  "process_fields build fc p (pre @ post) s =
     (case process_fields build fc p pre s of
        None \<Rightarrow> None
      | Some s1 \<Rightarrow> process_fields build fc p post s1)"
  by (induction pre arbitrary: s) (auto split: option.splits)

text \<open>The entry of a field whose name occurs once among the fields of its class.\<close>

lemma process_fields_entry:
  assumes run: "process_fields build fc p fs [] = Some built"
    and f: "f \<in> set fs" and dist: "distinct (map name fs)"
  shows "\<exists>s1 s2. \<not> obj_has (name f) s1 \<and> process_field build fc p f s1 = Some s2
                \<and> map_of built (name f) = map_of s2 (name f)"
proof -
  from f obtain pre post where fs: "fs = pre @ f # post"
    by (auto dest: split_list)
  with dist have pre: "name f \<notin> name ` set pre" and post: "name f \<notin> name ` set post"
    by auto
  from run obtain s1 s2 where 1: "process_fields build fc p pre [] = Some s1"
    and 2: "process_field build fc p f s1 = Some s2"
    and 3: "process_fields build fc p post s2 = Some built"
    by (auto simp: fs process_fields_append split: option.splits)
  have "map_of s1 (name f) = None"
    using process_fields_other [OF 1 pre] by simp
  then have "\<not> obj_has (name f) s1" by (simp add: obj_has_def)
  moreover have "map_of built (name f) = map_of s2 (name f)"
    using process_fields_other [OF 3 post] .
  ultimately show ?thesis using 2 by blast
qed

section \<open>The field resolver\<close>

lemma fold_push_collection:
  "fold (\<lambda>cf (pushed, visited). (pushed @ [g cf], insert (name cf) visited)) cfs (acc, V)
     = (acc @ map g cfs, V \<union> name ` set cfs)"
  by (induction cfs arbitrary: acc V) auto

lemma fold_push_search:
  "fold (\<lambda>sf pushed. if name sf \<notin> V then pushed @ [sf] else pushed) sfs acc
     = acc @ filter (\<lambda>sf. name sf \<notin> V) sfs"
  by (induction sfs arbitrary: acc) auto

lemma getSchemaFields_index:
  "getSchemaFields storage cls False = getSearchFieldsByTarget storage cls"
  by (simp add: getSchemaFields_def)

lemma getSchemaFields_collection:
  "getSchemaFields storage cls True =
     map (merge_collection_field (searchFieldsLookup (getSearchFieldsByTarget storage cls)))
       (getCollectionFieldsByTarget storage cls)
     @ filter (\<lambda>sf. name sf \<notin> name ` set (getCollectionFieldsByTarget storage cls))
         (getSearchFieldsByTarget storage cls)"
  by (simp add: getSchemaFields_def Let_def fold_push_collection fold_push_search)

lemma name_merge_collection_field [simp]: "name (merge_collection_field lookup cf) = name cf"
  by (simp add: merge_collection_field_def Let_def)

lemma searchFieldsLookup_fold:
  "fold (\<lambda>field lookup. lookup(name field \<mapsto> field)) sfs m
     = m ++ map_of (rev (map (\<lambda>f. (name f, f)) sfs))"
  by (induction sfs arbitrary: m) (auto simp: map_add_def fun_eq_iff split: option.splits)

lemma searchFieldsLookup_distinct:
  assumes "distinct (map name sfs)" and "sf \<in> set sfs"
  shows "searchFieldsLookup sfs (name sf) = Some sf"
proof -
  have "distinct (map fst (rev (map (\<lambda>f. (name f, f)) sfs)))"
    using assms(1) by (simp add: rev_map [symmetric] comp_def)
  moreover have "(name sf, sf) \<in> set (rev (map (\<lambda>f. (name f, f)) sfs))"
    using assms(2) by auto
  ultimately have "map_of (rev (map (\<lambda>f. (name f, f)) sfs)) (name sf) = Some sf"
    by (rule map_of_is_SomeI)
  then show ?thesis
    by (simp add: searchFieldsLookup_def searchFieldsLookup_fold)
qed

lemma fold_obj_set:
  "distinct (map fst b) \<Longrightarrow>
     map_of (fold (\<lambda>(k, v). obj_set k v) b acc) = map_of acc ++ map_of b"
proof (induction b arbitrary: acc)
  case Nil
  then show ?case by simp
next
  case (Cons e b)
  obtain k v where e: "e = (k, v)" by (cases e)
  from Cons.prems have k: "map_of b k = None" and d: "distinct (map fst b)"
    by (auto simp: e map_of_eq_None_iff)
  show ?case
    using Cons.IH [OF d, of "obj_set k v acc"] k
    by (auto simp: e map_add_def fun_eq_iff split: option.splits)
qed

lemma map_of_spread:
  "distinct (map fst a) \<Longrightarrow> distinct (map fst b) \<Longrightarrow>
     map_of (spread a b) = map_of a ++ map_of b"
  by (simp add: spread_def fold_obj_set)

text \<open>
  On own properties, a collection field that is also declared as a search field is
  emitted, at its own position, with an option bag that holds every key of the two bags,
  the value of the search field's bag on a key both have.
\<close>

lemma merged_bag_own:
  assumes "i < length (getCollectionFieldsByTarget storage cls)"
    and "cf = getCollectionFieldsByTarget storage cls ! i"
    and "sf \<in> set (getSearchFieldsByTarget storage cls)"
    and "name sf = name cf"
    and "distinct (map name (getSearchFieldsByTarget storage cls))"
    and "distinct (map fst (bag (schemaFieldOptions cf)))"
    and "distinct (map fst (bag (schemaFieldOptions sf)))"
  shows "\<exists>merged.
           getSchemaFields storage cls True ! i = cf\<lparr>schemaFieldOptions := Some merged\<rparr>
           \<and> map_of merged
               = map_of (bag (schemaFieldOptions cf)) ++ map_of (bag (schemaFieldOptions sf))"
proof -
  let ?lookup = "searchFieldsLookup (getSearchFieldsByTarget storage cls)"
  have "?lookup (name cf) = Some sf"
    using searchFieldsLookup_distinct [OF assms(5) assms(3)] assms(4) by simp
  then have m: "merge_collection_field ?lookup cf
         = cf\<lparr>schemaFieldOptions :=
               Some (spread (bag (schemaFieldOptions cf)) (bag (schemaFieldOptions sf)))\<rparr>"
    by (simp add: merge_collection_field_def)
  have "getSchemaFields storage cls True ! i = merge_collection_field ?lookup cf"
    using assms(1,2) by (simp add: getSchemaFields_collection nth_append)
  with m show ?thesis
    using map_of_spread [OF assms(6) assms(7)]
    by (intro exI [of _ "spread (bag (schemaFieldOptions cf)) (bag (schemaFieldOptions sf))"])
       simp
qed

text \<open>
  On own properties, the unified list is the collection fields, in their order, each as
  declared but for its option bag, followed by the search fields whose names no
  collection field has, in their order and as declared. When each of the two lists
  declares a name once, so does the unified list.
\<close>

lemma unified_fields_own:
  "\<exists>merged.
     getSchemaFields storage cls True
       = merged @ filter (\<lambda>sf. name sf \<notin> name ` set (getCollectionFieldsByTarget storage cls))
                    (getSearchFieldsByTarget storage cls)
     \<and> map name merged = map name (getCollectionFieldsByTarget storage cls)
     \<and> map (\<lambda>m. m\<lparr>schemaFieldOptions := None\<rparr>) merged
         = map (\<lambda>cf. cf\<lparr>schemaFieldOptions := None\<rparr>) (getCollectionFieldsByTarget storage cls)
     \<and> (distinct (map name (getCollectionFieldsByTarget storage cls))
          \<longrightarrow> distinct (map name (getSearchFieldsByTarget storage cls))
          \<longrightarrow> distinct (map name (getSchemaFields storage cls True))
              \<and> set (map name (getSchemaFields storage cls True))
                  = set (map name (getCollectionFieldsByTarget storage cls))
                    \<union> set (map name (getSearchFieldsByTarget storage cls)))"
proof -
  let ?cfs = "getCollectionFieldsByTarget storage cls"
  let ?sfs = "getSearchFieldsByTarget storage cls"
  let ?merged = "map (merge_collection_field (searchFieldsLookup ?sfs)) ?cfs"
  let ?only = "filter (\<lambda>sf. name sf \<notin> name ` set ?cfs) ?sfs"
  have 1: "getSchemaFields storage cls True = ?merged @ ?only"
    by (rule getSchemaFields_collection)
  have 2: "map name ?merged = map name ?cfs"
    by (simp add: comp_def)
  have 3: "distinct (map name (?merged @ ?only))"
    if "distinct (map name ?cfs)" "distinct (map name ?sfs)"
    using that by (auto simp: comp_def distinct_map_filter) (metis imageI)
  have 4: "set (map name (?merged @ ?only)) = set (map name ?cfs) \<union> set (map name ?sfs)"
    by (auto simp: comp_def)
  have 5: "map (\<lambda>m. m\<lparr>schemaFieldOptions := None\<rparr>) ?merged
             = map (\<lambda>cf. cf\<lparr>schemaFieldOptions := None\<rparr>) ?cfs"
    by (simp add: comp_def merge_collection_field_def Let_def)
  show ?thesis
    using 1 2 3 4 5 by (intro exI [of _ ?merged]) simp
qed

section \<open>The primary key augmenter\<close>

lemma add_pks_error: "snd (add_pks pks s) = None \<or> snd (add_pks pks s) = Some TypeError"
  by (induction pks arbitrary: s) (auto simp: Let_def split: option.splits)

text \<open>
  C10. When the augmenter stops with \<open>IncompletePrimaryKeyOrderError\<close>, the schema it
  was given is as it was: the orders are validated before the first write.
\<close>

theorem incomplete_order_leaves_schema:
  assumes "snd (addPrimaryKeys storage targetSchema collectionClass)
             = Some (IncompletePrimaryKeyOrderError fieldName className)"
  shows "fst (addPrimaryKeys storage targetSchema collectionClass) = targetSchema"
proof (cases "validatePrimaryKeysOrder (getPKsByTarget storage collectionClass)
                collectionClass")
  case None
  then have "snd (add_pks (getPKsByTarget storage collectionClass) targetSchema)
               = Some (IncompletePrimaryKeyOrderError fieldName className)"
    using assms by (simp add: addPrimaryKeys_def)
  then show ?thesis
    using add_pks_error [of "getPKsByTarget storage collectionClass" targetSchema] by simp
next
  case (Some e)
  then show ?thesis by (simp add: addPrimaryKeys_def)
qed

theorem incomplete_order_leaves_schema_witness:
  "snd (addPrimaryKeys example_storage [(''a'', JObj [(''type'', JTag STRING)])] HalfOrdered)
     = Some (IncompletePrimaryKeyOrderError ''b'' ''HalfOrdered'')
   \<and> fst (addPrimaryKeys example_storage [(''a'', JObj [(''type'', JTag STRING)])] HalfOrdered)
       = [(''a'', JObj [(''type'', JTag STRING)])]"
proof -
  have h: "snd (addPrimaryKeys example_storage [(''a'', JObj [(''type'', JTag STRING)])]
                  HalfOrdered)
             = Some (IncompletePrimaryKeyOrderError ''b'' ''HalfOrdered'')"
    by code_simp
  from incomplete_order_leaves_schema [OF h] h show ?thesis by simp
qed

lemma add_pks_other:
  "add_pks pks s = (s', e) \<Longrightarrow> k \<notin> pk_name ` set pks \<Longrightarrow> map_of s' k = map_of s k"
proof (induction pks arbitrary: s)
  case Nil
  then show ?case by simp
next
  case (Cons pk pks)
  let ?seeded = "if \<not> obj_has (pk_name pk) s
                 then obj_set (pk_name pk) (JObj [(''type'', JTag (pk_type pk))]) s else s"
  from Cons.prems have k: "k \<noteq> pk_name pk" "k \<notin> pk_name ` set pks" by auto
  show ?case
  proof (cases "set_prop (pk_name pk) ''primary_key'' (primary_key_attr pk) ?seeded")
    case None
    with Cons.prems k show ?thesis by (auto simp: Let_def split: if_splits)
  next
    case (Some s2)
    with Cons.prems have "add_pks pks s2 = (s', e)" by (simp add: Let_def)
    from Cons.IH [OF this k(2)] set_prop_other [OF Some k(1)] k(1)
    show ?thesis by (simp split: if_splits)
  qed
qed

lemma add_pks_entry:
  assumes "add_pks pks s = (s', None)" and "pk \<in> set pks"
    and "distinct (map pk_name pks)"
  shows "\<exists>node. map_of s' (pk_name pk) = Some (JObj node)
           \<and> map_of node ''primary_key'' = Some (primary_key_attr pk)
           \<and> (\<not> obj_has (pk_name pk) s \<longrightarrow>
                node = [(''type'', JTag (pk_type pk)), (''primary_key'', primary_key_attr pk)])"
  using assms
proof (induction pks arbitrary: s)
  case Nil
  then show ?case by simp
next
  case (Cons q pks)
  let ?seeded = "if \<not> obj_has (pk_name q) s
                 then obj_set (pk_name q) (JObj [(''type'', JTag (pk_type q))]) s else s"
  from Cons.prems(1) obtain s2 where
    sp: "set_prop (pk_name q) ''primary_key'' (primary_key_attr q) ?seeded = Some s2"
    and rest: "add_pks pks s2 = (s', None)"
    by (auto simp: Let_def split: option.splits)
  from Cons.prems(3) have dq: "pk_name q \<notin> pk_name ` set pks" and d: "distinct (map pk_name pks)"
    by auto
  show ?case
  proof (cases "pk = q")
    case True
    from set_prop_SomeD [OF sp] obtain node where
      n: "map_of ?seeded (pk_name q) = Some (JObj node)"
      and s2: "s2 = obj_set (pk_name q)
                      (JObj (obj_set ''primary_key'' (primary_key_attr q) node)) ?seeded"
      by blast
    have "map_of s' (pk_name q) = map_of s2 (pk_name q)"
      using add_pks_other [OF rest dq] .
    then have "map_of s' (pk_name q)
                 = Some (JObj (obj_set ''primary_key'' (primary_key_attr q) node))"
      by (simp add: s2)
    moreover have "\<not> obj_has (pk_name q) s \<longrightarrow> node = [(''type'', JTag (pk_type q))]"
      using n by auto
    ultimately show ?thesis
      using True by auto
  next
    case False
    with Cons.prems(2) have pk: "pk \<in> set pks" by simp
    with dq have ne: "pk_name pk \<noteq> pk_name q" by (metis imageI)
    have "obj_has (pk_name pk) s2 \<longleftrightarrow> obj_has (pk_name pk) s"
      using set_prop_other [OF sp ne] ne by (simp add: obj_has_def split: if_splits)
    with Cons.IH [OF rest pk d] show ?thesis by simp
  qed
qed

text \<open>
  On own properties, after an augmentation that raised no error the field of every
  primary-key descriptor is in the schema and carries \<open>primary_key\<close>; a field that
  was absent is the seed with that attribute.
\<close>

lemma pk_attribute_own:
  assumes "addPrimaryKeys storage targetSchema collectionClass = (augmented, None)"
    and "pk \<in> set (getPKsByTarget storage collectionClass)"
    and "distinct (map pk_name (getPKsByTarget storage collectionClass))"
  shows "\<exists>node.
           map_of augmented (pk_name pk) = Some (JObj node)
           \<and> map_of node ''primary_key''
               = Some (JObj [(''order'', JNum (case pk_order pk of None \<Rightarrow> 1 | Some n \<Rightarrow> n)),
                             (''autoGenerate'',
                              JBool (\<exists>opts. options pk = Some opts
                                           \<and> autoGenerate opts = Some True))])
           \<and> (\<not> obj_has (pk_name pk) targetSchema \<longrightarrow>
                node = [(''type'', JTag (pk_type pk)),
                        (''primary_key'',
                         JObj [(''order'', JNum (case pk_order pk of None \<Rightarrow> 1 | Some n \<Rightarrow> n)),
                               (''autoGenerate'',
                                JBool (\<exists>opts. options pk = Some opts
                                             \<and> autoGenerate opts = Some True))])])"
proof -
  from assms(1) have "add_pks (getPKsByTarget storage collectionClass) targetSchema
                        = (augmented, None)"
    by (auto simp: addPrimaryKeys_def Let_def split: option.splits)
  from add_pks_entry [OF this assms(2,3)] obtain node where
    "map_of augmented (pk_name pk) = Some (JObj node)"
    "map_of node ''primary_key'' = Some (primary_key_attr pk)"
    "\<not> obj_has (pk_name pk) targetSchema \<longrightarrow>
       node = [(''type'', JTag (pk_type pk)), (''primary_key'', primary_key_attr pk)]"
    by blast
  moreover have "pk_autoGenerate pk
                   \<longleftrightarrow> (\<exists>opts. options pk = Some opts \<and> autoGenerate opts = Some True)"
    by (simp add: pk_autoGenerate_def split: option.split)
  ultimately show ?thesis
    by (auto simp: primary_key_attr_def)
qed

lemma check_orders_None_iff:
  "check_orders pks collectionClass = None \<longleftrightarrow> (\<forall>pk\<in>set pks. truthy_num (pk_order pk))"
  by (induction pks) auto

lemma validatePrimaryKeysOrder_None_iff:
  "validatePrimaryKeysOrder pks collectionClass = None
     \<longleftrightarrow> length pks \<le> 1 \<or> (\<forall>pk\<in>set pks. pk_order pk \<noteq> None \<and> pk_order pk \<noteq> Some 0)"
  by (auto simp: validatePrimaryKeysOrder_def check_orders_None_iff truthy_num_def
      split: option.splits)

text \<open>
  C3. Two primary-key descriptors that both carry an order, one of them the order 0:
  the validation tests the order for truthiness, takes 0 for a missing order and the
  build fails with \<open>IncompletePrimaryKeyOrderError\<close>. The augmenter itself reads the
  order with \<^verbatim>\<open>?? 1\<close> and takes 0 for an order that is given: the same descriptor
  alone, which is not validated, gets \<open>order: 0\<close>.
\<close>

theorem order_zero_rejected_as_missing:
  "map pk_order (getPKsByTarget example_storage ZeroOrdered) = [Some 0, Some 1]
   \<and> processCollection example_storage 1 ZeroOrdered
       = Some (Inl (IncompletePrimaryKeyOrderError ''a'' ''ZeroOrdered''))
   \<and> map pk_order (getPKsByTarget example_storage SoleZero) = [Some 0]
   \<and> processCollection example_storage 1 SoleZero
       = Some (Inr \<lparr>schema_name = ''SoleZero'',
                     schema = [(''a'', JObj [(''type'', JTag STRING),
                                  (''primary_key'',
                                   JObj [(''order'', JNum 0),
                                         (''autoGenerate'', JBool False)])])]\<rparr>)"
  by code_simp

section \<open>The builder returns\<close>

lemma obj_nodes_Nil [simp]: "obj_nodes []"
  by (simp add: obj_nodes_def)

lemma obj_nodes_set [simp]: "obj_nodes s \<Longrightarrow> obj_nodes (obj_set k (JObj node) s)"
  by (auto simp: obj_nodes_def)

lemma obj_nodes_entry:
  "obj_nodes s \<Longrightarrow> obj_has k s \<Longrightarrow> \<exists>node. map_of s k = Some (JObj node)"
  by (auto simp: obj_nodes_def obj_has_def)

lemma switch_field_array:
  assumes "type f = ARRAY"
  shows "switch_field build fc p f s =
           (case element_descriptor build fc p f of
              None \<Rightarrow> None
            | Some elem \<Rightarrow>
                Some (obj_set (name f) (wrap_array (nat (effective_depth f)) elem) s))"
proof (cases "element_descriptor build fc p f")
  case None
  then show ?thesis
    using assms
    by (simp add: switch_field_def element_descriptor_def passed_parent_def Let_def
        split: option.splits embed_type.splits)
next
  case (Some elem)
  have d: "(case arrayDepth f of None \<Rightarrow> 1 | Some d \<Rightarrow> if d \<noteq> 0 \<and> d > 1 then d else 1)
             = effective_depth f"
    by (simp add: effective_depth_def split: option.split)
  have nested: "buildNestedArray elem (effective_depth f)
                  = Some (wrap_array (nat (effective_depth f)) elem)"
    by (rule buildNestedArray_wraps [OF effective_depth_pos])
  have el: "(case embedType f of
               Some (EmbedClass c) \<Rightarrow>
                 map_option (\<lambda>nested. JObj [(''type'', JObj nested)])
                   (build c fc (Some (case p of None \<Rightarrow> type f | Some p \<Rightarrow> p)))
             | Some (EmbedTag t) \<Rightarrow> Some (JObj [(''type'', JTag t)])
             | None \<Rightarrow> Some (JObj [(''type'', JUndefined)])) = Some elem"
    using Some
    by (simp add: element_descriptor_def passed_parent_def
        split: option.splits embed_type.splits)
  show ?thesis
    using assms by (simp add: switch_field_def Let_def d el nested Some)
qed

lemma switch_field_object:
  assumes "type f = OBJECT" and "embedType f = Some (EmbedClass c)"
  shows "switch_field build fc p f s =
           (case build c fc (Some (passed_parent p OBJECT)) of
              None \<Rightarrow> None
            | Some nested \<Rightarrow>
                Some (if length nested > 0
                      then obj_set (name f) (JObj [(''type'', JObj nested)]) s else s))"
  using assms
  by (simp add: switch_field_def Let_def passed_parent_def split: option.split)

lemma switch_field_object_plain:
  assumes "type f = OBJECT" and "\<forall>c. embedType f \<noteq> Some (EmbedClass c)"
  shows "switch_field build fc p f s = Some s"
  using assms
  by (simp add: switch_field_def Let_def split: option.split embed_type.split)

lemma switch_field_string:
  assumes "type f = STRING"
  shows "switch_field build fc p f s =
           (case schemaFieldOptions f of
              None \<Rightarrow> Some s
            | Some opts \<Rightarrow>
                if obj_has ''maxLength'' opts
                then set_prop (name f) ''maxLength'' (obj_get opts ''maxLength'') s
                else Some s)"
  using assms by (simp add: switch_field_def)

lemma switch_field_scalar:
  assumes "type f \<noteq> ARRAY" and "type f \<noteq> OBJECT" and "type f \<noteq> STRING"
  shows "switch_field build fc p f s = Some s"
  using assms by (cases "type f") (simp_all add: switch_field_def)

lemma switch_field_returns:
  assumes has: "obj_has (name f) s" and nodes: "obj_nodes s"
    and nested: "nested_returns build fc p f"
  shows "\<exists>s2. switch_field build fc p f s = Some s2 \<and> obj_nodes s2 \<and> obj_has (name f) s2"
proof -
  consider "type f = ARRAY" | c where "type f = OBJECT" "embedType f = Some (EmbedClass c)"
    | "type f = OBJECT" "\<forall>c. embedType f \<noteq> Some (EmbedClass c)" | "type f = STRING"
    | "type f \<noteq> ARRAY" "type f \<noteq> OBJECT" "type f \<noteq> STRING"
    by blast
  then show ?thesis
  proof cases
    case 1
    have "\<exists>elem. element_descriptor build fc p f = Some elem"
      using nested 1
      by (auto simp: element_descriptor_def nested_returns_def
          split: option.splits embed_type.splits)
    then obtain elem where "element_descriptor build fc p f = Some elem" by blast
    then show ?thesis
      using 1 nodes by (simp add: switch_field_array wrap_array_effective_depth)
  next
    case 2
    with nested obtain built where "build c fc (Some (passed_parent p OBJECT)) = Some built"
      by (auto simp: nested_returns_def)
    then show ?thesis
      using 2 has nodes by (simp add: switch_field_object)
  next
    case 3
    then show ?thesis
      using has nodes by (simp add: switch_field_object_plain)
  next
    case 4
    from obj_nodes_entry [OF nodes has] obtain node where
      "map_of s (name f) = Some (JObj node)" by blast
    then show ?thesis
      using 4 has nodes by (simp add: switch_field_string set_prop_Some split: option.split)
  next
    case 5
    then show ?thesis
      using has nodes by (simp add: switch_field_scalar)
  qed
qed

lemma process_field_present:
  assumes "obj_has (name f) s" and "obj_nodes s" and "nested_returns build fc p f"
  shows "\<exists>s'. process_field build fc p f s = Some s' \<and> obj_nodes s'"
proof -
  from switch_field_returns [OF assms] obtain s2 where
    sw: "switch_field build fc p f s = Some s2" and s2: "obj_nodes s2"
    and has: "obj_has (name f) s2" by blast
  from obj_nodes_entry [OF s2 has] obtain node2 where
    "map_of s2 (name f) = Some (JObj node2)" by blast
  from attach_field_options [OF this, of p] sw s2 show ?thesis
    using assms(1) by (simp add: process_field_def Let_def)
qed

lemma process_field_returns:
  assumes "obj_nodes s" and "nested_returns build fc p f"
  shows "\<exists>s'. process_field build fc p f s = Some s' \<and> obj_nodes s'"
proof (cases "obj_has (name f) s")
  case True
  then show ?thesis using assms by (rule process_field_present)
next
  case False
  let ?s1 = "obj_set (name f) (JObj [(''type'', JTag (type f))]) s"
  have "obj_has (name f) ?s1" "obj_nodes ?s1" using assms(1) by simp_all
  from process_field_present [OF this assms(2)] obtain s' where
    "process_field build fc p f ?s1 = Some s'" "obj_nodes s'" by blast
  moreover have "process_field build fc p f ?s1 = process_field build fc p f s"
    using False by (simp add: process_field_def Let_def)
  ultimately show ?thesis by simp
qed

lemma process_fields_returns:
  "obj_nodes s \<Longrightarrow> \<forall>f\<in>set fs. nested_returns build fc p f \<Longrightarrow>
     \<exists>s'. process_fields build fc p fs s = Some s' \<and> obj_nodes s'"
proof (induction fs arbitrary: s)
  case Nil
  then show ?case by simp
next
  case (Cons f fs)
  from process_field_returns [of s build fc p f] Cons.prems obtain s1 where
    "process_field build fc p f s = Some s1" "obj_nodes s1" by auto
  with Cons.IH [of s1] Cons.prems show ?case by auto
qed

lemma buildTigrisSchema_Suc_returns:
  assumes "\<forall>f\<in>set (getSchemaFields storage cls fc).
             nested_returns (buildTigrisSchema storage fuel) fc p f"
  shows "\<exists>built. buildTigrisSchema storage (Suc fuel) cls fc p = Some built \<and> obj_nodes built"
  using process_fields_returns [of "[]" "getSchemaFields storage cls fc"
      "buildTigrisSchema storage fuel" fc p] assms
  by simp

text \<open>
  When no class embeds itself, directly or through other classes, there is a rank that
  falls along every embedding, and the builder returns as soon as the fuel is above the
  rank of the class.
\<close>

lemma buildTigrisSchema_returns:
  assumes acyclic: "\<And>c f d. f \<in> set (getSchemaFields storage c fc) \<Longrightarrow>
                      embedType f = Some (EmbedClass d) \<Longrightarrow> rank d < rank c"
    and "rank cls < fuel"
  shows "\<exists>built. buildTigrisSchema storage fuel cls fc p = Some built"
  using assms(2)
proof (induction fuel arbitrary: cls p)
  case 0
  then show ?case by simp
next
  case (Suc fuel)
  have "nested_returns (buildTigrisSchema storage fuel) fc p f"
    if "f \<in> set (getSchemaFields storage cls fc)" for f
  proof (cases "embedType f")
    case None
    then show ?thesis by (simp add: nested_returns_def)
  next
    case (Some e)
    show ?thesis
    proof (cases e)
      case (EmbedTag t)
      with Some show ?thesis by (simp add: nested_returns_def)
    next
      case (EmbedClass d)
      with Some acyclic [OF that] Suc.prems have "rank d < fuel" by fastforce
      from Suc.IH [OF this] show ?thesis
        using Some EmbedClass by (auto simp: nested_returns_def)
    qed
  qed
  then show ?case
    using buildTigrisSchema_Suc_returns [of storage cls fc fuel p] by blast
qed

section \<open>The result does not depend on the fuel\<close>

lemma element_descriptor_mono:
  assumes "\<And>c q r. b1 c fc q = Some r \<Longrightarrow> b2 c fc q = Some r"
    and "element_descriptor b1 fc p f = Some elem"
  shows "element_descriptor b2 fc p f = Some elem"
proof (cases "embedType f")
  case None
  with assms(2) show ?thesis by (simp add: element_descriptor_def)
next
  case (Some e)
  show ?thesis
  proof (cases e)
    case (EmbedTag t)
    with Some assms(2) show ?thesis by (simp add: element_descriptor_def)
  next
    case (EmbedClass c)
    with Some assms(2) obtain nested where
      n: "b1 c fc (Some (passed_parent p (type f))) = Some nested"
      and e: "elem = JObj [(''type'', JObj nested)]"
      by (auto simp: element_descriptor_def)
    from assms(1) [OF n] show ?thesis
      using Some EmbedClass e by (simp add: element_descriptor_def)
  qed
qed

lemma switch_field_mono:
  assumes mono: "\<And>c q r. b1 c fc q = Some r \<Longrightarrow> b2 c fc q = Some r"
    and sw: "switch_field b1 fc p f s = Some s'"
  shows "switch_field b2 fc p f s = Some s'"
proof -
  consider "type f = ARRAY" | c where "type f = OBJECT" "embedType f = Some (EmbedClass c)"
    | "type f = OBJECT" "\<forall>c. embedType f \<noteq> Some (EmbedClass c)" | "type f = STRING"
    | "type f \<noteq> ARRAY" "type f \<noteq> OBJECT" "type f \<noteq> STRING"
    by blast
  then show ?thesis
  proof cases
    case 1
    with sw obtain elem where el: "element_descriptor b1 fc p f = Some elem"
      and s': "s' = obj_set (name f) (wrap_array (nat (effective_depth f)) elem) s"
      by (auto simp: switch_field_array split: option.splits)
    from element_descriptor_mono [of b1 fc b2, OF mono el] show ?thesis
      using 1 s' by (simp add: switch_field_array)
  next
    case 2
    with sw obtain nested where n: "b1 c fc (Some (passed_parent p OBJECT)) = Some nested"
      and s': "s' = (if length nested > 0
                     then obj_set (name f) (JObj [(''type'', JObj nested)]) s else s)"
      by (auto simp: switch_field_object split: option.splits)
    from mono [OF n] show ?thesis
      using 2 s' by (simp add: switch_field_object)
  next
    case 3
    with sw show ?thesis by (simp add: switch_field_object_plain)
  next
    case 4
    with sw show ?thesis by (simp add: switch_field_string)
  next
    case 5
    with sw show ?thesis by (simp add: switch_field_scalar)
  qed
qed

lemma process_field_mono:
  assumes "\<And>c q r. b1 c fc q = Some r \<Longrightarrow> b2 c fc q = Some r"
    and "process_field b1 fc p f s = Some s'"
  shows "process_field b2 fc p f s = Some s'"
proof -
  from assms(2) obtain s2 where
    sw: "switch_field b1 fc p f
           (if \<not> obj_has (name f) s
            then obj_set (name f) (JObj [(''type'', JTag (type f))]) s else s) = Some s2"
    and att: "(case schemaFieldOptions f of None \<Rightarrow> Some s2
               | Some opts \<Rightarrow> attach_options opts (type f) p (name f) schemaOptions s2)
              = Some s'"
    by (rule process_field_stages)
  from switch_field_mono [of b1 fc b2, OF assms(1) sw] att show ?thesis
    by (simp add: process_field_def Let_def)
qed

lemma process_fields_mono:
  assumes "\<And>c q r. b1 c fc q = Some r \<Longrightarrow> b2 c fc q = Some r"
  shows "process_fields b1 fc p fs s = Some s' \<Longrightarrow> process_fields b2 fc p fs s = Some s'"
proof (induction fs arbitrary: s)
  case Nil
  then show ?case by simp
next
  case (Cons f fs)
  from Cons.prems obtain s1 where 1: "process_field b1 fc p f s = Some s1"
    and 2: "process_fields b1 fc p fs s1 = Some s'"
    by (auto split: option.splits)
  from process_field_mono [of b1 fc b2, OF assms 1] Cons.IH [OF 2] show ?case
    by simp
qed

lemma buildTigrisSchema_fuel_mono:
  "buildTigrisSchema storage n cls fc p = Some r \<Longrightarrow> n \<le> m \<Longrightarrow>
     buildTigrisSchema storage m cls fc p = Some r"
proof (induction n arbitrary: m cls p r)
  case 0
  then show ?case by simp
next
  case (Suc n)
  then obtain m' where m: "m = Suc m'" and le: "n \<le> m'"
    by (cases m) auto
  have mono: "buildTigrisSchema storage m' c fc q = Some x"
    if "buildTigrisSchema storage n c fc q = Some x" for c q x
    using Suc.IH [OF that le] .
  have run: "process_fields (buildTigrisSchema storage n) fc p
          (getSchemaFields storage cls fc) [] = Some r"
    using Suc.prems(1) by simp
  have "process_fields (buildTigrisSchema storage m') fc p
          (getSchemaFields storage cls fc) [] = Some r"
    by (rule process_fields_mono [of "buildTigrisSchema storage n" fc
          "buildTigrisSchema storage m'", OF mono run])
  then show ?case by (simp add: m)
qed

lemma buildTigrisSchema_fuel_independent:
  assumes "buildTigrisSchema storage n cls fc p = Some r"
    and "buildTigrisSchema storage m cls fc p = Some r'"
  shows "r = r'"
proof (cases "n \<le> m")
  case True
  from buildTigrisSchema_fuel_mono [OF assms(1) True] assms(2) show ?thesis by simp
next
  case False
  then have "m \<le> n" by simp
  from buildTigrisSchema_fuel_mono [OF assms(2) this] assms(1) show ?thesis by simp
qed

section \<open>The node of a field\<close>

lemma not_option_attr [simp]:
  "''type'' \<notin> attrName ` set schemaOptions"
  "''items'' \<notin> attrName ` set schemaOptions"
  "''maxLength'' \<notin> attrName ` set schemaOptions"
  by (simp_all add: schemaOptions_def)

lemma field_options_other:
  "k \<notin> attrName ` set schemaOptions \<Longrightarrow> map_of (field_options f p node) k = map_of node k"
  by (simp add: field_options_def node_options_other split: option.split)

lemma field_options_None [simp]:
  "schemaFieldOptions f = None \<Longrightarrow> field_options f p node = node"
  by (simp add: field_options_def)

lemma node_options_object:
  "node_options opts OBJECT p schemaOptions node =
     (if obj_has ''default'' opts then obj_set ''default'' (obj_get opts ''default'') node
      else node)"
  by (simp add: schemaOptions_def schemaOptionSupported_def split: option.split)

lemma process_fields_nonempty:
  "process_fields build fc p fs s = Some s' \<Longrightarrow> s' = [] \<longleftrightarrow> fs = [] \<and> s = []"
proof (induction fs arbitrary: s)
  case Nil
  then show ?case by auto
next
  case (Cons f fs)
  from Cons.prems obtain s1 where 1: "process_field build fc p f s = Some s1"
    and 2: "process_fields build fc p fs s1 = Some s'"
    by (auto split: option.splits)
  from process_field_has(1) [OF 1] have "s1 \<noteq> []" by auto
  with Cons.IH [OF 2] show ?case by simp
qed

lemma buildTigrisSchema_empty_iff:
  "buildTigrisSchema storage fuel cls fc p = Some built \<Longrightarrow>
     built = [] \<longleftrightarrow> getSchemaFields storage cls fc = []"
  by (cases fuel) (auto dest: process_fields_nonempty)

lemma build_entry:
  assumes f: "f \<in> set (getSchemaFields storage cls fc)"
    and dist: "distinct (map name (getSchemaFields storage cls fc))"
    and nested: "\<forall>g\<in>set (getSchemaFields storage cls fc).
                   nested_returns (buildTigrisSchema storage fuel) fc parent g"
  obtains built s1 s2 where
    "buildTigrisSchema storage (Suc fuel) cls fc parent = Some built"
    and "\<not> obj_has (name f) s1"
    and "process_field (buildTigrisSchema storage fuel) fc parent f s1 = Some s2"
    and "map_of built (name f) = map_of s2 (name f)"
proof -
  from buildTigrisSchema_Suc_returns [OF nested] obtain built where
    b: "buildTigrisSchema storage (Suc fuel) cls fc parent = Some built" by blast
  then have "process_fields (buildTigrisSchema storage fuel) fc parent
               (getSchemaFields storage cls fc) [] = Some built"
    by simp
  from process_fields_entry [OF this f dist] b that show ?thesis by blast
qed



text \<open>
  On own properties, an OBJECT-typed field, declared once in its class, whose embed type
  is a class: the nested schema becomes the node's \<open>type\<close> only when it has at least
  one field, which is when the embedded class has one; otherwise the \<open>type\<close> stays
  OBJECT. Besides \<open>type\<close> the node holds the \<open>default\<close> attribute when the field's
  option bag has one, and nothing else.
\<close>

lemma object_field_own:
  assumes "f \<in> set (getSchemaFields storage cls fc)"
    and "distinct (map name (getSchemaFields storage cls fc))"
    and "type f = OBJECT"
    and "embedType f = Some (EmbedClass c)"
    and "\<forall>g\<in>set (getSchemaFields storage cls fc).
           nested_returns (buildTigrisSchema storage fuel) fc parent g"
  shows "\<exists>built nested.
           buildTigrisSchema storage (Suc fuel) cls fc parent = Some built
           \<and> buildTigrisSchema storage fuel c fc
               (Some (case parent of None \<Rightarrow> OBJECT | Some p \<Rightarrow> p)) = Some nested
           \<and> (nested = [] \<longleftrightarrow> getSchemaFields storage c fc = [])
           \<and> map_of built (name f)
               = Some (JObj ((''type'', if nested = [] then JTag OBJECT else JObj nested)
                             # (case schemaFieldOptions f of
                                  None \<Rightarrow> []
                                | Some opts \<Rightarrow>
                                    if obj_has ''default'' opts
                                    then [(''default'', obj_get opts ''default'')]
                                    else [])))"
proof -
  from assms(1,2,5) obtain built s1 s2 where
    b: "buildTigrisSchema storage (Suc fuel) cls fc parent = Some built"
    and fresh: "\<not> obj_has (name f) s1"
    and pf: "process_field (buildTigrisSchema storage fuel) fc parent f s1 = Some s2"
    and entry: "map_of built (name f) = map_of s2 (name f)"
    by (rule build_entry)
  let ?p = "Some (case parent of None \<Rightarrow> OBJECT | Some p \<Rightarrow> p)"
  from pf obtain nested where
    n: "buildTigrisSchema storage fuel c fc ?p = Some nested"
    and s2: "s2 = obj_set (name f)
                    (JObj (field_options f parent
                             [(''type'', if length nested > 0 then JObj nested
                                         else JTag OBJECT)])) s1"
    by (auto simp: process_field_object [OF assms(3,4) fresh] passed_parent_def
        split: option.splits)
  have 1: "nested = [] \<longleftrightarrow> getSchemaFields storage c fc = []"
    using n by (rule buildTigrisSchema_empty_iff)
  have 2: "field_options f parent [(''type'', x)]
             = (''type'', x)
               # (case schemaFieldOptions f of
                    None \<Rightarrow> []
                  | Some opts \<Rightarrow>
                      if obj_has ''default'' opts
                      then [(''default'', obj_get opts ''default'')]
                      else [])" for x
    by (simp add: field_options_def assms(3) node_options_object split: option.split)
  have 3: "map_of built (name f)
             = Some (JObj ((''type'', if nested = [] then JTag OBJECT else JObj nested)
                           # (case schemaFieldOptions f of
                                None \<Rightarrow> []
                              | Some opts \<Rightarrow>
                                  if obj_has ''default'' opts
                                  then [(''default'', obj_get opts ''default'')]
                                  else [])))"
    by (simp add: entry s2 2)
  show ?thesis
    apply (rule exI [of _ built], rule exI [of _ nested])
    apply (intro conjI)
    apply (rule b n 1 3)+
    done
qed

section \<open>The tracked parent type\<close>

lemma tracked_parent_Some [simp]: "tracked_parent (Some q) fs = Some q"
  by (induction fs) (simp_all add: passed_parent_def)

lemma tracked_parent_outermost: "tracked_parent None (f # fs) = Some (type f)"
  by (simp add: passed_parent_def)

lemma schemaOptions_attr_inj:
  assumes "row \<in> set schemaOptions" and "row' \<in> set schemaOptions"
    and "attrName row' = attrName row"
  shows "row' = row"
proof -
  have "distinct (map attrName schemaOptions)"
    by (simp add: schemaOptions_def)
  then have "inj_on attrName (set schemaOptions)"
    by (simp add: distinct_map)
  with assms show ?thesis by (auto dest: inj_onD)
qed

lemma schemaOptions_attr_not_base:
  "row \<in> set schemaOptions \<Longrightarrow> attrName row \<notin> {''type'', ''items'', ''maxLength''}"
  using not_option_attr by (auto simp: image_iff)

text \<open>
  In a build with tracked parent \<open>p\<close>, an attribute is on the node of a field exactly
  when it is supported under \<open>p\<close>.
\<close>

lemma build_attribute_iff:
  assumes b: "buildTigrisSchema storage fuel cls fc p = Some built"
    and g: "g \<in> set (getSchemaFields storage cls fc)"
    and dist: "distinct (map name (getSchemaFields storage cls fc))"
    and opts: "schemaFieldOptions g = Some opts"
    and row: "row \<in> set schemaOptions"
  shows "\<exists>node. map_of built (name g) = Some (JObj node)
           \<and> (obj_has (attrName row) node \<longleftrightarrow> schemaOptionSupported opts (type g) p row)"
proof -
  from b obtain n where fuel: "fuel = Suc n" by (cases fuel) auto
  with b have "process_fields (buildTigrisSchema storage n) fc p
                 (getSchemaFields storage cls fc) [] = Some built"
    by simp
  from process_fields_entry [OF this g dist] obtain s1 s2 where
    fresh: "\<not> obj_has (name g) s1"
    and pf: "process_field (buildTigrisSchema storage n) fc p g s1 = Some s2"
    and entry: "map_of built (name g) = map_of s2 (name g)"
    by blast
  from process_field_fresh_shape [OF fresh pf] obtain base where
    s2: "s2 = obj_set (name g) (JObj (field_options g p base)) s1"
    and base: "fst ` set base \<subseteq> {''type'', ''items'', ''maxLength''}"
    by blast
  let ?node = "field_options g p base"
  have node: "?node = node_options opts (type g) p schemaOptions base"
    by (simp add: field_options_def opts)
  have "\<not> obj_has (attrName row) base"
    using base schemaOptions_attr_not_base [OF row] by (auto simp: obj_has_keys)
  moreover have "(\<exists>row'\<in>set schemaOptions. attrName row' = attrName row
                    \<and> schemaOptionSupported opts (type g) p row')
                 \<longleftrightarrow> schemaOptionSupported opts (type g) p row"
    using row schemaOptions_attr_inj [OF row] by blast
  ultimately have "obj_has (attrName row) ?node
                     \<longleftrightarrow> schemaOptionSupported opts (type g) p row"
    by (simp add: node node_options_has)
  moreover have "map_of built (name g) = Some (JObj ?node)"
    by (simp add: entry s2)
  ultimately show ?thesis by blast
qed

lemma embedded_schema_wrap:
  "embedded_schema n (wrap_array n elem) = embedded_schema 0 elem"
  by (induction n) simp_all

text \<open>
  One step down: the schema that a container node embeds is the build of the embedded
  class under the parent type handed down.
\<close>

lemma build_embeds:
  assumes b: "buildTigrisSchema storage (Suc n) cls fc p = Some built"
    and f: "f \<in> set (getSchemaFields storage cls fc)"
    and dist: "distinct (map name (getSchemaFields storage cls fc))"
    and ty: "type f = ARRAY \<or> type f = OBJECT"
    and em: "embedType f = Some (EmbedClass c)"
    and node: "map_of built (name f) = Some node"
    and sub: "embedded_schema (wrappers_of f) node = Some (JObj sub)"
  shows "buildTigrisSchema storage n c fc (Some (passed_parent p (type f))) = Some sub"
proof -
  from b have "process_fields (buildTigrisSchema storage n) fc p
                 (getSchemaFields storage cls fc) [] = Some built"
    by simp
  from process_fields_entry [OF this f dist] obtain s1 s2 where
    fresh: "\<not> obj_has (name f) s1"
    and pf: "process_field (buildTigrisSchema storage n) fc p f s1 = Some s2"
    and entry: "map_of built (name f) = map_of s2 (name f)"
    by blast
  from ty show ?thesis
  proof
    assume a: "type f = ARRAY"
    from pf obtain elem where
      el: "element_descriptor (buildTigrisSchema storage n) fc p f = Some elem"
      and s2: "s2 = obj_set (name f)
                 (JObj (field_options f p
                    [(''type'', JTag ARRAY),
                     (''items'', wrap_array (nat (effective_depth f) - 1) elem)])) s1"
      by (auto simp: process_field_array [OF a fresh] split: option.splits)
    from el em obtain nested where
      n: "buildTigrisSchema storage n c fc (Some (passed_parent p (type f))) = Some nested"
      and elem: "elem = JObj [(''type'', JObj nested)]"
      by (auto simp: element_descriptor_def)
    obtain m where m: "nat (effective_depth f) = Suc m"
      using effective_depth_pos [of f] by (cases "nat (effective_depth f)") auto
    have "node = JObj (field_options f p
                    [(''type'', JTag ARRAY), (''items'', wrap_array m elem)])"
      using node entry by (simp add: s2 m)
    then have "embedded_schema (wrappers_of f) node = embedded_schema m (wrap_array m elem)"
      by (simp add: wrappers_of_def a m field_options_other)
    then have "embedded_schema (wrappers_of f) node = Some (JObj nested)"
      by (simp add: embedded_schema_wrap elem)
    with sub n show ?thesis by simp
  next
    assume a: "type f = OBJECT"
    from pf obtain nested where
      n: "buildTigrisSchema storage n c fc (Some (passed_parent p OBJECT)) = Some nested"
      and s2: "s2 = obj_set (name f)
                 (JObj (field_options f p
                    [(''type'', if length nested > 0 then JObj nested else JTag OBJECT)])) s1"
      by (auto simp: process_field_object [OF a em fresh] split: option.splits)
    have "node = JObj (field_options f p
                    [(''type'', if length nested > 0 then JObj nested else JTag OBJECT)])"
      using node entry by (simp add: s2)
    then have "embedded_schema (wrappers_of f) node
                 = Some (if length nested > 0 then JObj nested else JTag OBJECT)"
      by (simp add: wrappers_of_def a field_options_other)
    with sub n a show ?thesis by (simp split: if_splits)
  qed
qed

lemma build_along_path:
  assumes dist: "\<And>k. distinct (map name (getSchemaFields storage k fc))"
  shows "buildTigrisSchema storage fuel cls fc p = Some built \<Longrightarrow>
         container_path storage fc cls path = Some c \<Longrightarrow>
         descend built path = Some sub \<Longrightarrow>
         \<exists>n. buildTigrisSchema storage n c fc (tracked_parent p path) = Some sub"
proof (induction path arbitrary: fuel cls p built)
  case Nil
  then show ?case by auto
next
  case (Cons f fs)
  from Cons.prems(1) obtain n where fuel: "fuel = Suc n" by (cases fuel) auto
  from Cons.prems(2) obtain c1 where
    f: "f \<in> set (getSchemaFields storage cls fc)"
    and ty: "type f = ARRAY \<or> type f = OBJECT"
    and em: "embedType f = Some (EmbedClass c1)"
    and rest: "container_path storage fc c1 fs = Some c"
    by (auto split: if_splits option.splits embed_type.splits)
  from Cons.prems(3) obtain node s' where
    node: "map_of built (name f) = Some node"
    and emb: "embedded_schema (wrappers_of f) node = Some (JObj s')"
    and down: "descend s' fs = Some sub"
    by (auto split: option.splits json.splits)
  have "buildTigrisSchema storage n c1 fc (Some (passed_parent p (type f))) = Some s'"
    using Cons.prems(1) f dist ty em node emb unfolding fuel by (rule build_embeds)
  from Cons.IH [OF this rest down] show ?case by simp
qed

text \<open>
  On own properties, the node of a field nested inside containers, each declared once in
  its class, has an attribute of the table exactly when the attribute is in the field's
  option bag, the field's own type is not excluded and the type of the outermost
  container, which is the parent type tracked all the way down, is not in the
  attribute's does-not-apply-to-parent set.
\<close>

lemma tracked_parent_decides:
  assumes "buildTigrisSchema storage fuel cls fc None = Some built"
    and "container_path storage fc cls (outer # inner) = Some c"
    and "descend built (outer # inner) = Some sub"
    and "\<forall>k. distinct (map name (getSchemaFields storage k fc))"
    and "g \<in> set (getSchemaFields storage c fc)"
    and "schemaFieldOptions g = Some opts"
    and "row \<in> set schemaOptions"
  shows "\<exists>node.
           map_of sub (name g) = Some (JObj node)
           \<and> (obj_has (attrName row) node \<longleftrightarrow>
                obj_has (attrName row) opts
                \<and> type g \<notin> doesNotApplyTo row
                \<and> type outer \<notin> doesNotApplyToParent row)"
proof -
  from assms(4) have dist: "\<And>k. distinct (map name (getSchemaFields storage k fc))"
    by blast
  from build_along_path [OF dist assms(1,2,3)] obtain n where
    "buildTigrisSchema storage n c fc (Some (type outer)) = Some sub"
    by (auto simp: passed_parent_def)
  from build_attribute_iff [OF this assms(5) dist assms(6,7)] show ?thesis
    by (simp add: schemaOptionSupported_def)
qed

section \<open>The two embeddings agree\<close>

text \<open>
  With \<^verbatim>\<open>Object.prototype\<close> as the runtime starts with it, a name that is not
  inherited is in an object exactly when it is an own property, and each operation on
  the prototype chain does what the operation on own properties does, leaving
  \<^verbatim>\<open>Object.prototype\<close> as it was.
\<close>

lemma unextended_pristine: "unextended pristine"
  by (simp add: unextended_def pristine_def list_all_iff)

lemma unextended_lacks:
  assumes "unextended W" and "ordinary k"
  shows "map_of W k = None"
proof -
  from assms have "k \<notin> fst ` set W"
    by (auto simp: unextended_def ordinary_def list_all_iff)
  then show ?thesis by (simp add: map_of_eq_None_iff)
qed

lemma js_in_ordinary:
  "unextended W \<Longrightarrow> ordinary k \<Longrightarrow> js_in k ob W \<longleftrightarrow> obj_has k ob"
  by (simp add: js_in_def obj_has_def unextended_lacks) (simp add: ordinary_def)

lemma js_get_ordinary:
  "unextended W \<Longrightarrow> ordinary k \<Longrightarrow> js_get ob W k = obj_get ob k"
  by (simp add: js_get_def obj_get_def unextended_lacks ordinary_def split: option.split)

lemma ordinary_attrs: "row \<in> set schemaOptions \<Longrightarrow> ordinary (attrName row)"
proof -
  have "list_all (\<lambda>r. ordinary (attrName r)) schemaOptions"
    by (simp add: schemaOptions_def ordinary_def object_members_def)
  then show "row \<in> set schemaOptions \<Longrightarrow> ordinary (attrName row)"
    by (simp add: list_all_iff)
qed

lemma ordinary_maxLength: "ordinary ''maxLength''"
  by (simp add: ordinary_def object_members_def)

lemma ordinary_primary_key: "ordinary ''primary_key''"
  by (simp add: ordinary_def object_members_def)

lemma js_schemaOptionSupported_ordinary:
  "unextended W \<Longrightarrow> row \<in> set schemaOptions \<Longrightarrow>
     js_schemaOptionSupported opts ft p row W \<longleftrightarrow> schemaOptionSupported opts ft p row"
  by (simp add: js_schemaOptionSupported_def schemaOptionSupported_def js_in_ordinary
      ordinary_attrs)

lemma js_assign_ordinary:
  "ordinary key \<Longrightarrow> js_assign key node s0 W = (Done (obj_set key node s0), W)"
  by (simp add: js_assign_def ordinary_def)


lemma js_searchFieldsLookup_fold:
  assumes "\<forall>sf\<in>set sfs. name sf \<noteq> ''length'' \<and> name sf \<noteq> ''__proto__''"
  shows "\<exists>l'. fold js_lookup_put sfs (Done l) = Done l'
            \<and> map_of l' = fold (\<lambda>f m. m(name f \<mapsto> f)) sfs (map_of l)"
  using assms
proof (induction sfs arbitrary: l)
  case Nil
  then show ?case by simp
next
  case (Cons sf sfs)
  from Cons.prems have 1: "js_lookup_put sf (Done l) = Done (obj_set (name sf) sf l)"
    by (simp add: js_lookup_put_def)
  have 2: "map_of (obj_set (name sf) sf l) = (map_of l)(name sf \<mapsto> sf)"
    by (rule ext) simp
  from Cons.prems have "\<forall>g\<in>set sfs. name g \<noteq> ''length'' \<and> name g \<noteq> ''__proto__''"
    by simp
  from Cons.IH [OF this, of "obj_set (name sf) sf l"] 1 2 show ?case
    by simp
qed

lemma js_searchFieldsLookup_plain:
  assumes "\<forall>sf\<in>set sfs. name sf \<noteq> ''length'' \<and> name sf \<noteq> ''__proto__''"
  obtains l where "js_searchFieldsLookup sfs = Done l"
    and "map_of l = searchFieldsLookup sfs"
  using js_searchFieldsLookup_fold [OF assms, of "[]"]
  by (auto simp: js_searchFieldsLookup_def searchFieldsLookup_def)

lemma js_merge_collection_field_plain:
  assumes "unextended W" and "plain (name cf)" and "map_of l = m"
  shows "js_merge_collection_field l W cf = Done (merge_collection_field m cf)"
proof -
  from assms(2) have o: "ordinary (name cf)" and n: "name cf \<noteq> ''length''"
    "name cf \<noteq> ''__proto__''" "name cf \<notin> set array_members"
    by (auto simp: plain_def ordinary_def)
  have "map_of W (name cf) = None"
    using assms(1) o by (rule unextended_lacks)
  with n assms(3) show ?thesis
    by (auto simp: js_merge_collection_field_def merge_collection_field_def js_lookup_def
        Let_def split: option.splits)
qed

lemma js_push_collection_plain:
  assumes "unextended W" and "map_of l = m" and "\<forall>cf\<in>set cfs. plain (name cf)"
  shows "js_push_collection l W cfs acc V
           = Done (acc @ map (merge_collection_field m) cfs, V \<union> name ` set cfs)"
  using assms(3)
proof (induction cfs arbitrary: acc V)
  case Nil
  then show ?case by simp
next
  case (Cons cf cfs)
  from Cons.prems have p: "plain (name cf)" and rest: "\<forall>g\<in>set cfs. plain (name g)"
    by auto
  from js_merge_collection_field_plain [OF assms(1) p assms(2)] Cons.IH [OF rest]
  show ?case by simp
qed

lemma js_getSchemaFields_index:
  "js_getSchemaFields storage cls False W = Done (getSchemaFields storage cls False)"
  by (simp add: js_getSchemaFields_def getSchemaFields_def)

lemma js_getSchemaFields_collection:
  assumes "unextended W"
    and "\<forall>sf\<in>set (getSearchFieldsByTarget storage cls).
           name sf \<noteq> ''length'' \<and> name sf \<noteq> ''__proto__''"
    and "\<forall>cf\<in>set (getCollectionFieldsByTarget storage cls). plain (name cf)"
  shows "js_getSchemaFields storage cls True W = Done (getSchemaFields storage cls True)"
proof -
  from js_searchFieldsLookup_plain [OF assms(2)] obtain l where
    l: "js_searchFieldsLookup (getSearchFieldsByTarget storage cls) = Done l"
    and m: "map_of l = searchFieldsLookup (getSearchFieldsByTarget storage cls)"
    by blast
  from js_push_collection_plain [OF assms(1) m assms(3), of "[]" "{}"] l show ?thesis
    by (simp add: js_getSchemaFields_def Let_def getSchemaFields_collection fold_push_search)
qed

lemma plain_fields_getSchemaFields:
  assumes "unextended W" and "plain_fields storage fc cls"
  shows "js_getSchemaFields storage cls fc W = Done (getSchemaFields storage cls fc)"
proof (cases fc)
  case True
  with assms(2) have
    "\<forall>sf\<in>set (getSearchFieldsByTarget storage cls).
       name sf \<noteq> ''length'' \<and> name sf \<noteq> ''__proto__''"
    "\<forall>cf\<in>set (getCollectionFieldsByTarget storage cls). plain (name cf)"
    by (auto simp: plain_fields_def list_all_iff plain_def ordinary_def)
  with assms(1) True show ?thesis
    by (simp add: js_getSchemaFields_collection)
next
  case False
  then show ?thesis by (simp add: js_getSchemaFields_index)
qed

lemma plain_fields_ordinary:
  assumes "plain_fields storage fc cls" and "f \<in> set (getSchemaFields storage cls fc)"
  shows "ordinary (name f)"
proof (cases fc)
  case True
  with assms(2) have "name f \<in> name ` set (getCollectionFieldsByTarget storage cls)
                        \<union> name ` set (getSearchFieldsByTarget storage cls)"
    by (auto simp: getSchemaFields_collection)
  with assms(1) True show ?thesis
    by (auto simp: plain_fields_def list_all_iff plain_def)
next
  case False
  with assms show ?thesis
    by (auto simp: plain_fields_def list_all_iff getSchemaFields_index)
qed


lemma agrees_Some [simp]: "agrees (Some s) j W \<longleftrightarrow> j = Some (Done s, W)"
  by (simp add: agrees_def)

lemma agrees_None: "agrees None j W \<longleftrightarrow> j = None \<or> j = Some (Throw TypeError, W)"
  by (simp add: agrees_def)

lemma agrees_DoneD:
  "agrees r j W \<Longrightarrow> j = Some (Done s, W') \<Longrightarrow> r = Some s \<and> W' = W"
  by (auto simp: agrees_def split: option.splits)

lemma js_set_prop_agrees:
  assumes "unextended W" and "ordinary key"
  shows "js_set_prop key attr v s0 W
           = (case set_prop key attr v s0 of
                Some s' \<Rightarrow> (Done s', W)
              | None \<Rightarrow> (Throw TypeError, W))"
proof -
  have "map_of W key = None" using assms by (rule unextended_lacks)
  moreover have "key \<noteq> ''__proto__''" using assms(2) by (simp add: ordinary_def)
  ultimately show ?thesis
    by (auto simp: set_prop_def js_set_prop_def split: option.splits json.splits)
qed

lemma js_attach_options_agrees:
  assumes W: "unextended W" and key: "ordinary key" and "set rows \<subseteq> set schemaOptions"
  shows "js_attach_options opts ft p key rows s0 W
           = (case attach_options opts ft p key rows s0 of
                Some s' \<Rightarrow> (Done s', W)
              | None \<Rightarrow> (Throw TypeError, W))"
  using assms(3)
proof (induction rows arbitrary: s0)
  case Nil
  then show ?case by simp
next
  case (Cons row rows)
  from Cons.prems have row: "row \<in> set schemaOptions" and rows: "set rows \<subseteq> set schemaOptions"
    by auto
  note sup = js_schemaOptionSupported_ordinary [OF W row]
  note get = js_get_ordinary [OF W ordinary_attrs [OF row]]
  show ?case
    using Cons.IH [OF rows]
    by (simp add: sup get js_set_prop_agrees [OF W key] split: option.splits)
qed

lemma js_array_node_agrees:
  assumes "ordinary (name f)"
  shows "js_array_node f items s0 W
           = (case buildNestedArray items
                     (case arrayDepth f of
                        None \<Rightarrow> 1
                      | Some d \<Rightarrow> if d \<noteq> 0 \<and> d > 1 then d else 1) of
                None \<Rightarrow> (Throw TypeError, W)
              | Some node \<Rightarrow> (Done (obj_set (name f) node s0), W))"
  by (simp add: js_array_node_def Let_def js_assign_ordinary [OF assms] split: option.splits)

lemma js_switch_field_agrees:
  assumes W: "unextended W" and key: "ordinary (name f)"
    and build: "\<And>c p. agrees (build c fc p) (jsb c fc p W) W"
  shows "agrees (switch_field build fc parent f s0) (js_switch_field jsb fc parent f s0 W) W"
proof (cases "type f")
  case ARRAY
  let ?p = "Some (case parent of None \<Rightarrow> ARRAY | Some p \<Rightarrow> p)"
  show ?thesis
  proof (cases "embedType f")
    case None
    with ARRAY show ?thesis
      by (simp add: switch_field_def js_switch_field_def Let_def js_array_node_agrees [OF key]
          agrees_def split: option.splits)
  next
    case (Some e)
    show ?thesis
    proof (cases e)
      case (EmbedTag t)
      with ARRAY Some show ?thesis
        by (simp add: switch_field_def js_switch_field_def Let_def js_array_node_agrees [OF key]
            agrees_def split: option.splits)
    next
      case (EmbedClass c)
      from build [of c ?p] ARRAY Some EmbedClass show ?thesis
        by (auto simp: switch_field_def js_switch_field_def Let_def
            js_array_node_agrees [OF key] agrees_def split: option.splits)
    qed
  qed
next
  case OBJECT
  let ?p = "Some (case parent of None \<Rightarrow> OBJECT | Some p \<Rightarrow> p)"
  show ?thesis
  proof (cases "\<exists>c. embedType f = Some (EmbedClass c)")
    case False
    with OBJECT show ?thesis
      by (auto simp: switch_field_def js_switch_field_def Let_def
          split: option.splits embed_type.splits)
  next
    case True
    then obtain c where c: "embedType f = Some (EmbedClass c)" by blast
    from build [of c ?p] OBJECT c show ?thesis
      by (auto simp: switch_field_def js_switch_field_def Let_def
          js_assign_ordinary [OF key] agrees_def split: option.splits)
  qed
next
  case STRING
  then show ?thesis
    by (auto simp: switch_field_def js_switch_field_def Let_def js_in_ordinary [OF W]
        js_get_ordinary [OF W] ordinary_maxLength js_set_prop_agrees [OF W key] agrees_def
        split: option.splits)
qed (auto simp: switch_field_def js_switch_field_def Let_def)

lemma js_process_field_agrees:
  assumes W: "unextended W" and key: "ordinary (name f)"
    and build: "\<And>c p. agrees (build c fc p) (jsb c fc p W) W"
  shows "agrees (process_field build fc parent f s0) (js_process_field jsb fc parent f s0 W) W"
proof -
  have aux: "agrees
      (case switch_field build fc parent f seeded of
         None \<Rightarrow> None
       | Some switched \<Rightarrow>
           (case schemaFieldOptions f of
              None \<Rightarrow> Some switched
            | Some opts \<Rightarrow>
                attach_options opts (type f) parent (name f) schemaOptions switched))
      (case js_switch_field jsb fc parent f seeded W of
         None \<Rightarrow> None
       | Some (Done switched, W') \<Rightarrow>
           (case schemaFieldOptions f of
              None \<Rightarrow> Some (Done switched, W')
            | Some opts \<Rightarrow>
                Some (js_attach_options opts (type f) parent (name f) schemaOptions
                        switched W'))
       | Some stopped \<Rightarrow> Some stopped) W" for seeded
  proof -
    have sw: "agrees (switch_field build fc parent f seeded)
                (js_switch_field jsb fc parent f seeded W) W"
      using W key build by (rule js_switch_field_agrees)
    show ?thesis
  proof (cases "switch_field build fc parent f seeded")
    case None
    with sw
    have "js_switch_field jsb fc parent f seeded W = None
          \<or> js_switch_field jsb fc parent f seeded W = Some (Throw TypeError, W)"
      by (simp add: agrees_None)
    with None show ?thesis
      by (auto simp: agrees_None)
  next
    case (Some switched)
    with sw
    have "js_switch_field jsb fc parent f seeded W = Some (Done switched, W)"
      by simp
    with Some show ?thesis
      by (simp add: js_attach_options_agrees [OF W key subset_refl] agrees_def
          split: option.splits)
  qed
  qed
  show ?thesis
    using aux [of "if \<not> obj_has (name f) s0
                   then obj_set (name f) (JObj [(''type'', JTag (type f))]) s0 else s0"]
    by (simp add: process_field_def js_process_field_def Let_def js_in_ordinary [OF W key])
qed

lemma js_process_fields_agrees:
  assumes W: "unextended W"
    and build: "\<And>c p. agrees (build c fc p) (jsb c fc p W) W"
    and names: "\<forall>f\<in>set fs. ordinary (name f)"
  shows "agrees (process_fields build fc parent fs s0) (js_process_fields jsb fc parent fs s0 W) W"
  using names
proof (induction fs arbitrary: s0)
  case Nil
  then show ?case by simp
next
  case (Cons f fs)
  from Cons.prems have key: "ordinary (name f)" and rest: "\<forall>g\<in>set fs. ordinary (name g)"
    by auto
  have one: "agrees (process_field build fc parent f s0)
               (js_process_field jsb fc parent f s0 W) W"
    using W key build by (rule js_process_field_agrees)
  show ?case
  proof (cases "process_field build fc parent f s0")
    case None
    with one have "js_process_field jsb fc parent f s0 W = None
                   \<or> js_process_field jsb fc parent f s0 W = Some (Throw TypeError, W)"
      by (simp add: agrees_None)
    with None show ?thesis
      by (auto simp: agrees_None)
  next
    case (Some s1)
    with one have "js_process_field jsb fc parent f s0 W = Some (Done s1, W)"
      by simp
    with Some Cons.IH [OF rest, of s1] show ?thesis
      by simp
  qed
qed

lemma js_buildTigrisSchema_agrees:
  assumes W: "unextended W" and names: "\<And>k. plain_fields storage fc k"
  shows "agrees (buildTigrisSchema storage fuel cls fc parent)
           (js_buildTigrisSchema storage fuel cls fc parent W) W"
proof (induction fuel arbitrary: cls parent)
  case 0
  then show ?case by (simp add: agrees_def)
next
  case (Suc fuel)
  have fs: "js_getSchemaFields storage cls fc W = Done (getSchemaFields storage cls fc)"
    using W names by (rule plain_fields_getSchemaFields)
  have ord: "\<forall>f\<in>set (getSchemaFields storage cls fc). ordinary (name f)"
    using plain_fields_ordinary [OF names] by blast
  have "agrees (process_fields (\<lambda>c fc p. buildTigrisSchema storage fuel c fc p) fc parent
                  (getSchemaFields storage cls fc) [])
          (js_process_fields (\<lambda>c fc p W'. js_buildTigrisSchema storage fuel c fc p W')
             fc parent (getSchemaFields storage cls fc) [] W) W"
    using W Suc.IH ord by (rule js_process_fields_agrees)
  with fs show ?case by simp
qed

lemma js_add_pks_agrees:
  assumes W: "unextended W" and names: "\<forall>pk\<in>set pks. ordinary (pk_name pk)"
  shows "js_add_pks pks s0 W
           = (case snd (add_pks pks s0) of
                None \<Rightarrow> (Done (fst (add_pks pks s0)), W)
              | Some e \<Rightarrow> (Throw e, W))"
  using names
proof (induction pks arbitrary: s0)
  case Nil
  then show ?case by simp
next
  case (Cons pk pks)
  from Cons.prems have key: "ordinary (pk_name pk)"
    and rest: "\<forall>k\<in>set pks. ordinary (pk_name k)"
    by auto
  show ?case
    using Cons.IH [OF rest]
    by (simp add: Let_def js_in_ordinary [OF W key] js_set_prop_agrees [OF W key]
        split: option.splits)
qed

lemma js_addPrimaryKeys_agrees:
  assumes "unextended W"
    and "\<forall>pk\<in>set (getPKsByTarget storage cls). ordinary (pk_name pk)"
  shows "js_addPrimaryKeys storage s0 cls W
           = (case snd (addPrimaryKeys storage s0 cls) of
                None \<Rightarrow> (Done (fst (addPrimaryKeys storage s0 cls)), W)
              | Some e \<Rightarrow> (Throw e, W))"
  by (simp add: js_addPrimaryKeys_def addPrimaryKeys_def Let_def
      js_add_pks_agrees [OF assms] split: option.splits)

section \<open>Schemas of objects\<close>

text \<open>
  Every entry of a schema that the builder returns is an object, and on such a schema the
  loop of the augmenter does not throw.
\<close>

lemma agrees_DoneI:
  "agrees r j W \<Longrightarrow> r = Some s \<Longrightarrow> j = Some (Done s, W)"
  by simp

lemma js_nested_returns_own:
  assumes "unextended W" and "\<And>k. plain_fields storage fc k"
    and "js_nested_returns (js_buildTigrisSchema storage fuel) fc parent f W"
  shows "nested_returns (buildTigrisSchema storage fuel) fc parent f"
proof (cases "embedType f")
  case None
  then show ?thesis by (simp add: nested_returns_def)
next
  case (Some e)
  show ?thesis
  proof (cases e)
    case (EmbedTag t)
    with Some show ?thesis by (simp add: nested_returns_def)
  next
    case (EmbedClass c)
    let ?p = "Some (passed_parent parent (type f))"
    have a: "agrees (buildTigrisSchema storage fuel c fc ?p)
               (js_buildTigrisSchema storage fuel c fc ?p W) W"
      using assms(1,2) by (rule js_buildTigrisSchema_agrees)
    show ?thesis
    proof (cases "type f = ARRAY \<or> type f = OBJECT")
      case True
      with assms(3) Some EmbedClass obtain nested W' where
        "js_buildTigrisSchema storage fuel c fc ?p W = Some (Done nested, W')"
        by (auto simp: js_nested_returns_def split: option.splits outcome.splits)
      from agrees_DoneD [OF a this] True Some EmbedClass show ?thesis
        by (simp add: nested_returns_def)
    next
      case False
      with Some EmbedClass show ?thesis by (simp add: nested_returns_def)
    qed
  qed
qed

lemma buildNestedArray_object:
  "buildNestedArray items (case d of None \<Rightarrow> 1 | Some n \<Rightarrow> if n \<noteq> 0 \<and> n > 1 then n else 1)
     = Some v \<Longrightarrow> \<exists>node. v = JObj node"
proof -
  let ?d = "case d of None \<Rightarrow> 1 | Some n \<Rightarrow> if n \<noteq> 0 \<and> n > 1 then n else (1::int)"
  assume v: "buildNestedArray items ?d = Some v"
  have pos: "0 < ?d" by (simp split: option.split)
  then obtain m where m: "nat ?d = Suc m"
    by (cases "nat ?d") auto
  from buildNestedArray_wraps [OF pos, of items] v m show ?thesis
    by simp
qed

lemma set_prop_obj_nodes:
  "obj_nodes s \<Longrightarrow> set_prop key attr v s = Some s' \<Longrightarrow> obj_nodes s'"
  by (auto simp: set_prop_def split: option.splits json.splits)

lemma attach_options_obj_nodes:
  "obj_nodes s \<Longrightarrow> attach_options opts ft p key rows s = Some s' \<Longrightarrow> obj_nodes s'"
proof (induction rows arbitrary: s)
  case Nil
  then show ?case by simp
next
  case (Cons row rows)
  show ?case
  proof (cases "schemaOptionSupported opts ft p row")
    case True
    with Cons.prems(2) obtain s1 where
      1: "set_prop key (attrName row) (obj_get opts (attrName row)) s = Some s1"
      and 2: "attach_options opts ft p key rows s1 = Some s'"
      by (auto split: option.splits)
    from set_prop_obj_nodes [OF Cons.prems(1) 1] have "obj_nodes s1" .
    from Cons.IH [OF this 2] show ?thesis .
  next
    case False
    with Cons.prems(2) have "attach_options opts ft p key rows s = Some s'" by simp
    from Cons.IH [OF Cons.prems(1) this] show ?thesis .
  qed
qed

lemma switch_field_obj_nodes:
  assumes "obj_nodes s" and "switch_field build fc p f s = Some s'"
  shows "obj_nodes s'"
proof (cases "type f")
  case ARRAY
  with assms(2) obtain items v where
    "buildNestedArray items
       (case arrayDepth f of None \<Rightarrow> 1 | Some n \<Rightarrow> if n \<noteq> 0 \<and> n > 1 then n else 1) = Some v"
    and s': "s' = obj_set (name f) v s"
    by (auto simp: switch_field_def Let_def split: option.splits)
  from buildNestedArray_object [OF this(1)] s' assms(1) show ?thesis
    by auto
next
  case OBJECT
  with assms show ?thesis
    by (auto simp: switch_field_def Let_def split: option.splits embed_type.splits if_splits)
next
  case STRING
  with assms show ?thesis
    by (auto simp: switch_field_def Let_def split: option.splits if_splits
        dest: set_prop_obj_nodes)
qed (use assms in \<open>auto simp: switch_field_def Let_def\<close>)

lemma process_field_obj_nodes:
  assumes "obj_nodes s" and "process_field build fc p f s = Some s'"
  shows "obj_nodes s'"
proof -
  let ?seeded = "if \<not> obj_has (name f) s
                 then obj_set (name f) (JObj [(''type'', JTag (type f))]) s else s"
  from assms(2) obtain switched where
    sw: "switch_field build fc p f ?seeded = Some switched"
    and at: "(case schemaFieldOptions f of
                None \<Rightarrow> Some switched
              | Some opts \<Rightarrow>
                  attach_options opts (type f) p (name f) schemaOptions switched) = Some s'"
    by (auto simp: process_field_def Let_def split: option.splits)
  have "obj_nodes ?seeded" using assms(1) by simp
  from switch_field_obj_nodes [OF this sw] have "obj_nodes switched" .
  with at show ?thesis
    by (auto split: option.splits dest: attach_options_obj_nodes)
qed

lemma process_fields_obj_nodes:
  "obj_nodes s \<Longrightarrow> process_fields build fc p fs s = Some s' \<Longrightarrow> obj_nodes s'"
proof (induction fs arbitrary: s)
  case Nil
  then show ?case by simp
next
  case (Cons f fs)
  from Cons.prems(2) obtain s1 where
    1: "process_field build fc p f s = Some s1"
    and 2: "process_fields build fc p fs s1 = Some s'"
    by (auto split: option.splits)
  from process_field_obj_nodes [OF Cons.prems(1) 1] have "obj_nodes s1" .
  from Cons.IH [OF this 2] show ?case .
qed

lemma buildTigrisSchema_obj_nodes:
  "buildTigrisSchema storage fuel cls fc p = Some built \<Longrightarrow> obj_nodes built"
  by (cases fuel) (auto dest: process_fields_obj_nodes [rotated])

lemma add_pks_succeeds:
  "obj_nodes s \<Longrightarrow> snd (add_pks pks s) = None \<and> obj_nodes (fst (add_pks pks s))"
proof (induction pks arbitrary: s)
  case Nil
  then show ?case by simp
next
  case (Cons pk pks)
  let ?seeded = "if \<not> obj_has (pk_name pk) s
                 then obj_set (pk_name pk) (JObj [(''type'', JTag (pk_type pk))]) s else s"
  have nodes: "obj_nodes ?seeded" using Cons.prems by simp
  have "obj_has (pk_name pk) ?seeded" by simp
  from obj_nodes_entry [OF nodes this] obtain node where
    "map_of ?seeded (pk_name pk) = Some (JObj node)" by blast
  then obtain s1 where
    1: "set_prop (pk_name pk) ''primary_key'' (primary_key_attr pk) ?seeded = Some s1"
    by (simp add: set_prop_def)
  from set_prop_obj_nodes [OF nodes 1] have "obj_nodes s1" .
  from Cons.IH [OF this] 1 show ?case
    by (simp add: Let_def)
qed

section \<open>The field resolver on the prototype chain\<close>



lemma merged_field_name [simp]: "name (merged_field l W cf) = name cf"
  by (simp add: merged_field_def js_merge_collection_field_def
      split: lookup_value.splits outcome.splits)

lemma merged_field_rest [simp]:
  "(merged_field l W cf)\<lparr>schemaFieldOptions := None\<rparr> = cf\<lparr>schemaFieldOptions := None\<rparr>"
  by (simp add: merged_field_def js_merge_collection_field_def
      split: lookup_value.splits outcome.splits)




text \<open>
  A search field called \<^verbatim>\<open>length\<close> makes the resolver throw in collection mode, and
  with it the builder and \<^verbatim>\<open>processCollection\<close>.
\<close>

lemma length_search_field_throws:
  "js_getSchemaFields polluting_storage Measured True pristine = Throw RangeError
   \<and> js_processCollection polluting_storage 1 Measured pristine
       = Some (Throw RangeError, pristine)"
  by code_simp






section \<open>The primary key augmenter on the prototype chain\<close>

text \<open>
  C7. The augmenter is given a schema whose entries are objects, as every schema that the
  builder returns is (lemma \<open>buildTigrisSchema_obj_nodes\<close>), and primary-key descriptors
  whose orders pass the validation, whose names are not inherited ones and each of which
  is the only one of its field; \<^verbatim>\<open>Object.prototype\<close> is as the runtime starts with
  it. Then the augmentation succeeds, and the field of every descriptor is in the schema
  and carries \<open>primary_key\<close> with the descriptor's order, or 1 when it has none, and
  with \<open>autoGenerate\<close> true exactly when the descriptor's is the boolean true; a field
  that was absent is the seed \<^verbatim>\<open>{ type: pk.type }\<close> with that attribute.
\<close>

theorem primary_key_attribute:
  assumes "unextended W"
    and "\<forall>k\<in>set (getPKsByTarget storage collectionClass). ordinary (pk_name k)"
    and "obj_nodes targetSchema"
    and "validatePrimaryKeysOrder (getPKsByTarget storage collectionClass) collectionClass
           = None"
    and "pk \<in> set (getPKsByTarget storage collectionClass)"
    and "distinct (map pk_name (getPKsByTarget storage collectionClass))"
  shows "\<exists>augmented node.
           js_addPrimaryKeys storage targetSchema collectionClass W = (Done augmented, W)
           \<and> map_of augmented (pk_name pk) = Some (JObj node)
           \<and> map_of node ''primary_key''
               = Some (JObj [(''order'', JNum (case pk_order pk of None \<Rightarrow> 1 | Some n \<Rightarrow> n)),
                             (''autoGenerate'',
                              JBool (\<exists>opts. options pk = Some opts
                                           \<and> autoGenerate opts = Some True))])
           \<and> (\<not> obj_has (pk_name pk) targetSchema \<longrightarrow>
                node = [(''type'', JTag (pk_type pk)),
                        (''primary_key'',
                         JObj [(''order'', JNum (case pk_order pk of None \<Rightarrow> 1 | Some n \<Rightarrow> n)),
                               (''autoGenerate'',
                                JBool (\<exists>opts. options pk = Some opts
                                             \<and> autoGenerate opts = Some True))])])"
proof -
  let ?pks = "getPKsByTarget storage collectionClass"
  define augmented where "augmented = fst (add_pks ?pks targetSchema)"
  from add_pks_succeeds [OF assms(3), of ?pks]
  have "add_pks ?pks targetSchema = (augmented, None)"
    by (simp add: augmented_def prod_eq_iff)
  with assms(4) have own: "addPrimaryKeys storage targetSchema collectionClass = (augmented, None)"
    by (simp add: addPrimaryKeys_def Let_def)
  then have "js_addPrimaryKeys storage targetSchema collectionClass W = (Done augmented, W)"
    by (simp add: js_addPrimaryKeys_agrees [OF assms(1,2)])
  with pk_attribute_own [OF own assms(5,6)] show ?thesis
    by blast
qed

theorem primary_key_attribute_witness:
  "unextended pristine
   \<and> obj_nodes [(''id'', JObj [(''type'', JTag INT32)])]
   \<and> validatePrimaryKeysOrder (getPKsByTarget example_storage Catalog) Catalog = None
   \<and> primary_key ''region'' STRING (Some 2) None \<in> set (getPKsByTarget example_storage Catalog)
   \<and> distinct (map pk_name (getPKsByTarget example_storage Catalog))
   \<and> \<not> obj_has ''region'' [(''id'', JObj [(''type'', JTag INT32)])]
   \<and> (\<exists>augmented.
         js_addPrimaryKeys example_storage [(''id'', JObj [(''type'', JTag INT32)])] Catalog
             pristine = (Done augmented, pristine)
         \<and> map_of augmented ''region''
             = Some (JObj [(''type'', JTag STRING),
                           (''primary_key'',
                            JObj [(''order'', JNum 2), (''autoGenerate'', JBool False)])]))"
proof -
  let ?pk = "primary_key ''region'' STRING (Some 2) None"
  let ?s = "[(''id'', JObj [(''type'', JTag INT32)])]"
  have 0: "\<forall>k\<in>set (getPKsByTarget example_storage Catalog). ordinary (pk_name k)"
    by code_simp
  have "obj_nodes (obj_set ''id'' (JObj [(''type'', JTag INT32)]) [])"
    by (rule obj_nodes_set) (rule obj_nodes_Nil)
  then have 1: "obj_nodes ?s" by simp
  have 2: "validatePrimaryKeysOrder (getPKsByTarget example_storage Catalog) Catalog = None"
    by code_simp
  have 3: "?pk \<in> set (getPKsByTarget example_storage Catalog)"
    by code_simp
  have 4: "distinct (map pk_name (getPKsByTarget example_storage Catalog))"
    by code_simp
  have 5: "\<not> obj_has ''region'' ?s"
    by code_simp
  have 6: "pk_name ?pk = ''region''" "pk_type ?pk = STRING" "pk_order ?pk = Some 2"
    "\<not> (\<exists>opts. options ?pk = Some opts \<and> autoGenerate opts = Some True)"
    by (simp_all add: primary_key_def pk_order_def)
  from primary_key_attribute [OF unextended_pristine 0 1 2 3 4, unfolded 6] 5
  obtain augmented node where
    a: "js_addPrimaryKeys example_storage ?s Catalog pristine = (Done augmented, pristine)"
    and n: "map_of augmented ''region'' = Some (JObj node)"
    and s: "node = [(''type'', JTag STRING),
                    (''primary_key'',
                     JObj [(''order'', JNum 2), (''autoGenerate'', JBool False)])]"
    using 6 by auto
  have "\<exists>augmented.
         js_addPrimaryKeys example_storage ?s Catalog pristine = (Done augmented, pristine)
         \<and> map_of augmented ''region''
             = Some (JObj [(''type'', JTag STRING),
                           (''primary_key'',
                            JObj [(''order'', JNum 2), (''autoGenerate'', JBool False)])])"
    using a n unfolding s by (intro exI [of _ augmented] conjI)
  then show ?thesis
    by (intro conjI unextended_pristine 1 2 3 4 5)
qed

section \<open>Two builds in a row\<close>

text \<open>
  When no field is called by an inherited name, a build that returns leaves
  \<^verbatim>\<open>Object.prototype\<close> as it found it, and the next build of the class returns the
  same document.
\<close>

lemma js_build_repeatable:
  assumes "unextended W" and "\<And>k. plain_fields storage fc k"
    and "js_buildTigrisSchema storage fuel cls fc parent W = Some (Done built, W')"
  shows "W' = W \<and> js_buildTigrisSchema storage fuel cls fc parent W' = Some (Done built, W')"
proof -
  have "agrees (buildTigrisSchema storage fuel cls fc parent)
          (js_buildTigrisSchema storage fuel cls fc parent W) W"
    using assms(1,2) by (rule js_buildTigrisSchema_agrees)
  from agrees_DoneD [OF this assms(3)] assms(3) show ?thesis by simp
qed

text \<open>
  C9. The class has a field \<open>default\<close> without options and a STRING field
  \<^verbatim>\<open>__proto__\<close> whose option bag holds \<open>default\<close>. For the second field
  \<^verbatim>\<open>key in schema\<close> is true, the key is not seeded, and line 124 writes \<open>default\<close>
  to \<^verbatim>\<open>Object.prototype\<close>. The first invocation of \<^verbatim>\<open>processIndex\<close> returns a document
  with the node of \<open>default\<close>; the second, on the same class and the same store, finds
  \<open>default\<close> inherited, does not seed it, and returns the empty document.
\<close>

theorem proto_field_changes_next_build:
  "getSearchFieldsByTarget polluting_storage Polluter
     = [field ''default'' STRING None None None,
        field ''__proto__'' STRING None None (Some [(''default'', JNum 5)])]
   \<and> js_processIndex polluting_storage 1 Polluter pristine
       = Some (Done \<lparr>schema_name = ''Polluter'',
                      schema = [(''default'', JObj [(''type'', JTag STRING)])]\<rparr>,
               pristine @ [(''default'', JNum 5)])
   \<and> js_processIndex polluting_storage 1 Polluter (pristine @ [(''default'', JNum 5)])
       = Some (Done \<lparr>schema_name = ''Polluter'', schema = []\<rparr>,
               pristine @ [(''default'', JNum 5)])"
  by code_simp

section \<open>The node of an object field on the prototype chain\<close>

text \<open>
  C6 (as amended). \<^verbatim>\<open>Object.prototype\<close> is as the runtime starts with it and no
  field of the store is called by an inherited name. An OBJECT-typed field, declared once
  in its class, whose embed type is a class: when the recursive calls of the class come
  to schemas, so does the build, and the nested schema is the node's \<open>type\<close> only when
  it has at least one field, which is when the embedded class has one; otherwise the
  \<open>type\<close> stays OBJECT. Besides \<open>type\<close> the node holds the \<open>default\<close> attribute
  when the field's option bag has one, and nothing else.
\<close>

theorem object_field_nested_schema:
  assumes "unextended W"
    and "\<forall>k. plain_fields storage fc k"
    and "f \<in> set (getSchemaFields storage cls fc)"
    and "distinct (map name (getSchemaFields storage cls fc))"
    and "type f = OBJECT"
    and "embedType f = Some (EmbedClass c)"
    and "\<forall>g\<in>set (getSchemaFields storage cls fc).
           js_nested_returns (js_buildTigrisSchema storage fuel) fc parent g W"
  shows "\<exists>built nested.
           js_getSchemaFields storage cls fc W = Done (getSchemaFields storage cls fc)
           \<and> js_buildTigrisSchema storage (Suc fuel) cls fc parent W = Some (Done built, W)
           \<and> js_buildTigrisSchema storage fuel c fc
               (Some (case parent of None \<Rightarrow> OBJECT | Some p \<Rightarrow> p)) W = Some (Done nested, W)
           \<and> (nested = [] \<longleftrightarrow> getSchemaFields storage c fc = [])
           \<and> map_of built (name f)
               = Some (JObj ((''type'', if nested = [] then JTag OBJECT else JObj nested)
                             # (case schemaFieldOptions f of
                                  None \<Rightarrow> []
                                | Some opts \<Rightarrow>
                                    if obj_has ''default'' opts
                                    then [(''default'', obj_get opts ''default'')]
                                    else [])))"
proof -
  from assms(2) have names: "\<And>k. plain_fields storage fc k" by blast
  have own: "\<forall>g\<in>set (getSchemaFields storage cls fc).
               nested_returns (buildTigrisSchema storage fuel) fc parent g"
    using assms(7) js_nested_returns_own [OF assms(1) names] by blast
  from object_field_own [OF assms(3,4,5,6) own] obtain built nested where
    b: "buildTigrisSchema storage (Suc fuel) cls fc parent = Some built"
    and n: "buildTigrisSchema storage fuel c fc
              (Some (case parent of None \<Rightarrow> OBJECT | Some p \<Rightarrow> p)) = Some nested"
    and e: "nested = [] \<longleftrightarrow> getSchemaFields storage c fc = []"
    and m: "map_of built (name f)
              = Some (JObj ((''type'', if nested = [] then JTag OBJECT else JObj nested)
                            # (case schemaFieldOptions f of
                                 None \<Rightarrow> []
                               | Some opts \<Rightarrow>
                                   if obj_has ''default'' opts
                                   then [(''default'', obj_get opts ''default'')]
                                   else [])))"
    by blast
  have jb: "js_buildTigrisSchema storage (Suc fuel) cls fc parent W = Some (Done built, W)"
    using js_buildTigrisSchema_agrees [OF assms(1) names] b by (rule agrees_DoneI)
  have jn: "js_buildTigrisSchema storage fuel c fc
              (Some (case parent of None \<Rightarrow> OBJECT | Some p \<Rightarrow> p)) W = Some (Done nested, W)"
    using js_buildTigrisSchema_agrees [OF assms(1) names] n by (rule agrees_DoneI)
  have jf: "js_getSchemaFields storage cls fc W = Done (getSchemaFields storage cls fc)"
    using assms(1) names by (rule plain_fields_getSchemaFields)
  show ?thesis
    by (rule exI [of _ built], rule exI [of _ nested]) (intro conjI jf jb jn e m)
qed

lemma example_plain: "plain_fields example_storage False k"
  by (simp add: plain_fields_def example_storage_def field_def title_search_def
      items_field_def meta_field_def detail_field_def label_field_def ordinary_def
      object_members_def)

theorem object_field_nested_schema_witness:
  "unextended pristine
   \<and> detail_field \<in> set (getSchemaFields example_storage Item False)
   \<and> type detail_field = OBJECT \<and> embedType detail_field = Some (EmbedClass Detail)
   \<and> (\<exists>built nested.
         js_buildTigrisSchema example_storage 2 Item False None pristine
           = Some (Done built, pristine)
         \<and> js_buildTigrisSchema example_storage 1 Detail False (Some OBJECT) pristine
             = Some (Done nested, pristine)
         \<and> nested \<noteq> []
         \<and> map_of built ''detail'' = Some (JObj [(''type'', JObj nested)]))
   \<and> meta_field \<in> set (getSchemaFields example_storage Holder False)
   \<and> type meta_field = OBJECT \<and> embedType meta_field = Some (EmbedClass Empty)
   \<and> getSchemaFields example_storage Empty False = []
   \<and> (\<exists>built.
         js_buildTigrisSchema example_storage 2 Holder False None pristine
           = Some (Done built, pristine)
         \<and> map_of built ''meta''
             = Some (JObj [(''type'', JTag OBJECT), (''default'', JNum 5)]))"
proof -
  have 0: "\<forall>k. plain_fields example_storage False k"
    by (simp add: example_plain)
  have 1: "detail_field \<in> set (getSchemaFields example_storage Item False)"
    by code_simp
  have 2: "distinct (map name (getSchemaFields example_storage Item False))"
    by code_simp
  have 3: "type detail_field = OBJECT" by code_simp
  have 4: "embedType detail_field = Some (EmbedClass Detail)" by code_simp
  have 5: "\<forall>g\<in>set (getSchemaFields example_storage Item False).
             js_nested_returns (js_buildTigrisSchema example_storage 1) False None g pristine"
    by code_simp
  have 6: "schemaFieldOptions detail_field = None" "name detail_field = ''detail''"
    "getSchemaFields example_storage Detail False \<noteq> []"
    by code_simp+
  have 7: "Suc 1 = 2" by simp
  from object_field_nested_schema [OF unextended_pristine 0 1 2 3 4 5, unfolded 6 7]
  obtain built nested where
    a1: "js_buildTigrisSchema example_storage 2 Item False None pristine
           = Some (Done built, pristine)"
    and a2: "js_buildTigrisSchema example_storage 1 Detail False (Some OBJECT) pristine
           = Some (Done nested, pristine)"
    and a3: "nested \<noteq> []"
    and a4: "map_of built ''detail'' = Some (JObj [(''type'', JObj nested)])"
    using 6(3) by auto
  have a: "\<exists>built nested.
         js_buildTigrisSchema example_storage 2 Item False None pristine
           = Some (Done built, pristine)
         \<and> js_buildTigrisSchema example_storage 1 Detail False (Some OBJECT) pristine
             = Some (Done nested, pristine)
         \<and> nested \<noteq> []
         \<and> map_of built ''detail'' = Some (JObj [(''type'', JObj nested)])"
    by (rule exI [of _ built], rule exI [of _ nested]) (intro conjI a1 a2 a3 a4)
  have m1: "meta_field \<in> set (getSchemaFields example_storage Holder False)"
    by code_simp
  have m2: "distinct (map name (getSchemaFields example_storage Holder False))"
    by code_simp
  have m3: "type meta_field = OBJECT" by code_simp
  have m4: "embedType meta_field = Some (EmbedClass Empty)" by code_simp
  have m5: "\<forall>g\<in>set (getSchemaFields example_storage Holder False).
              js_nested_returns (js_buildTigrisSchema example_storage 1) False None g pristine"
    by code_simp
  have m6: "schemaFieldOptions meta_field = Some [(''default'', JNum 5)]"
    "name meta_field = ''meta''"
    by code_simp+
  have m7: "getSchemaFields example_storage Empty False = []"
    by code_simp
  have m8: "obj_has ''default'' [(''default'', JNum 5)]"
    "obj_get [(''default'', JNum 5)] ''default'' = JNum 5"
    by code_simp+
  from object_field_nested_schema [OF unextended_pristine 0 m1 m2 m3 m4 m5, unfolded m6 m7 7]
  obtain built where
    b1: "js_buildTigrisSchema example_storage 2 Holder False None pristine
           = Some (Done built, pristine)"
    and b2: "map_of built ''meta''
               = Some (JObj [(''type'', JTag OBJECT), (''default'', JNum 5)])"
    using m8 by auto
  have b: "\<exists>built.
         js_buildTigrisSchema example_storage 2 Holder False None pristine
           = Some (Done built, pristine)
         \<and> map_of built ''meta''
             = Some (JObj [(''type'', JTag OBJECT), (''default'', JNum 5)])"
    by (rule exI [of _ built]) (intro conjI b1 b2)
  show ?thesis
    by (intro conjI unextended_pristine 1 3 4 a m1 m3 m4 m7 b)
qed

text \<open>
  C6 (as stated) fails: the field \<open>meta\<close> is OBJECT-typed and embeds a class with no
  fields, its option bag holds \<open>default\<close>, and its node is not exactly
  \<^verbatim>\<open>{ type: OBJECT }\<close>.
\<close>

theorem empty_embedded_object_keeps_default:
  "js_getSchemaFields example_storage Holder False pristine = Done [meta_field]
   \<and> type meta_field = OBJECT
   \<and> embedType meta_field = Some (EmbedClass Empty)
   \<and> js_getSchemaFields example_storage Empty False pristine = Done []
   \<and> js_buildTigrisSchema example_storage 2 Holder False None pristine
       = Some (Done [(''meta'', JObj [(''type'', JTag OBJECT), (''default'', JNum 5)])],
               pristine)
   \<and> JObj [(''type'', JTag OBJECT), (''default'', JNum 5)] \<noteq> JObj [(''type'', JTag OBJECT)]"
  by code_simp

section \<open>The tracked parent type on the prototype chain\<close>

text \<open>
  C1 (as amended). \<^verbatim>\<open>Object.prototype\<close> is as the runtime starts with it, no field of
  the store is called by an inherited name and every class declares a name once. For a
  field nested inside containers, attribute applicability is decided against the parent
  type tracked from the outermost enclosing array or object field, which is handed down
  unchanged to every deeper level: below an outermost ARRAY the type consulted is ARRAY
  at every depth, whatever the immediate container is, and inside OBJECT containers only
  it is OBJECT. An attribute of the table is on the node of the nested field exactly
  when it is in the field's option bag, the field's own type is not excluded and that
  tracked type is not in the attribute's does-not-apply-to-parent set. A field reached
  through an ARRAY that is nested below an outermost OBJECT is left out of the statement.
\<close>

theorem outermost_container_decides:
  assumes "unextended W"
    and "\<forall>k. plain_fields storage fc k"
    and "js_buildTigrisSchema storage fuel cls fc None W = Some (Done built, W')"
    and "container_path storage fc cls (outer # inner) = Some c"
    and "descend built (outer # inner) = Some sub"
    and "\<forall>k. distinct (map name (getSchemaFields storage k fc))"
    and "g \<in> set (getSchemaFields storage c fc)"
    and "schemaFieldOptions g = Some opts"
    and "row \<in> set schemaOptions"
    and "type outer = ARRAY \<or> list_all (\<lambda>f. type f = OBJECT) (outer # inner)"
  shows "W' = W
         \<and> (\<exists>node.
               map_of sub (name g) = Some (JObj node)
               \<and> (obj_has (attrName row) node \<longleftrightarrow>
                    obj_has (attrName row) opts
                    \<and> type g \<notin> doesNotApplyTo row
                    \<and> type outer \<notin> doesNotApplyToParent row))"
proof -
  from assms(2) have names: "\<And>k. plain_fields storage fc k" by blast
  have "agrees (buildTigrisSchema storage fuel cls fc None)
          (js_buildTigrisSchema storage fuel cls fc None W) W"
    using assms(1) names by (rule js_buildTigrisSchema_agrees)
  from agrees_DoneD [OF this assms(3)]
  have own: "buildTigrisSchema storage fuel cls fc None = Some built" and W: "W' = W"
    by simp_all
  from tracked_parent_decides [OF own assms(4,5,6,7,8,9)] W show ?thesis
    by simp
qed

theorem outermost_container_decides_witness:
  "unextended pristine
   \<and> container_path example_storage False Shelf [items_field, detail_field] = Some Detail
   \<and> type items_field = ARRAY \<and> type detail_field = OBJECT
   \<and> label_field \<in> set (getSchemaFields example_storage Detail False)
   \<and> schemaFieldOptions label_field = Some [(''searchIndex'', JBool True)]
   \<and> (\<exists>built sub node.
         js_buildTigrisSchema example_storage 3 Shelf False None pristine
           = Some (Done built, pristine)
         \<and> descend built [items_field, detail_field] = Some sub
         \<and> map_of sub ''label'' = Some (JObj node)
         \<and> \<not> obj_has ''searchIndex'' node)"
proof -
  let ?built = "[(''items'',
                  JObj [(''type'', JTag ARRAY),
                        (''items'',
                         JObj [(''type'',
                                JObj [(''detail'',
                                       JObj [(''type'',
                                              JObj [(''label'',
                                                     JObj [(''type'', JTag STRING)])])])])])])]"
  let ?sub = "[(''label'', JObj [(''type'', JTag STRING)])]"
  let ?row = "\<lparr>attrName = ''searchIndex'', doesNotApplyTo = {OBJECT},
                doesNotApplyToParent = {ARRAY}\<rparr>"
  have 0: "\<forall>k. plain_fields example_storage False k"
    by (simp add: example_plain)
  have 1: "js_buildTigrisSchema example_storage 3 Shelf False None pristine
             = Some (Done ?built, pristine)"
    by code_simp
  have 2: "container_path example_storage False Shelf [items_field, detail_field]
             = Some Detail"
    by code_simp
  have 3: "descend ?built [items_field, detail_field] = Some ?sub"
    by code_simp
  have 4: "\<forall>k. distinct (map name (getSchemaFields example_storage k False))"
    by (simp add: getSchemaFields_def example_storage_def field_def title_search_def
        items_field_def meta_field_def detail_field_def label_field_def)
  have 5: "label_field \<in> set (getSchemaFields example_storage Detail False)"
    by code_simp
  have 6: "schemaFieldOptions label_field = Some [(''searchIndex'', JBool True)]"
    by code_simp
  have 7: "?row \<in> set schemaOptions"
    by (simp add: schemaOptions_def)
  have 8: "type items_field = ARRAY" "type detail_field = OBJECT" "name label_field = ''label''"
    by code_simp+
  have 9: "type items_field = ARRAY
           \<or> list_all (\<lambda>f. type f = OBJECT) [items_field, detail_field]"
    using 8(1) by (rule disjI1)
  from outermost_container_decides [OF unextended_pristine 0 1 2 3 4 5 6 7 9] obtain node where
    n: "map_of ?sub ''label'' = Some (JObj node)" and s: "\<not> obj_has ''searchIndex'' node"
    unfolding 8 by auto
  have "\<exists>built sub node.
         js_buildTigrisSchema example_storage 3 Shelf False None pristine
           = Some (Done built, pristine)
         \<and> descend built [items_field, detail_field] = Some sub
         \<and> map_of sub ''label'' = Some (JObj node)
         \<and> \<not> obj_has ''searchIndex'' node"
    by (rule exI [of _ ?built], rule exI [of _ ?sub], rule exI [of _ node])
       (intro conjI 1 3 n s)
  then show ?thesis
    by (intro conjI unextended_pristine 2 8(1,2) 5 6)
qed

text \<open>
  C1 (as stated) fails. The field \<open>label\<close> sits in the OBJECT field \<open>detail\<close>, which
  sits in the ARRAY field \<open>items\<close>. Its bag holds \<open>searchIndex\<close>, which applies to a
  STRING field under an OBJECT parent; decided against the immediate container, the
  attribute would be attached. The node of \<open>label\<close> in the output does not have it.
\<close>

theorem nearest_container_not_consulted:
  "container_path example_storage False Shelf [items_field, detail_field] = Some Detail
   \<and> type items_field = ARRAY
   \<and> type detail_field = OBJECT
   \<and> js_getSchemaFields example_storage Detail False pristine = Done [label_field]
   \<and> type label_field = STRING
   \<and> schemaFieldOptions label_field = Some [(''searchIndex'', JBool True)]
   \<and> schemaOptions ! 2
       = \<lparr>attrName = ''searchIndex'', doesNotApplyTo = {OBJECT}, doesNotApplyToParent = {ARRAY}\<rparr>
   \<and> js_schemaOptionSupported [(''searchIndex'', JBool True)] STRING (Some OBJECT)
        \<lparr>attrName = ''searchIndex'', doesNotApplyTo = {OBJECT}, doesNotApplyToParent = {ARRAY}\<rparr>
        pristine
   \<and> js_buildTigrisSchema example_storage 3 Shelf False None pristine
       = Some (Done [(''items'',
                JObj [(''type'', JTag ARRAY),
                      (''items'',
                       JObj [(''type'',
                              JObj [(''detail'',
                                     JObj [(''type'',
                                            JObj [(''label'',
                                                   JObj [(''type'', JTag STRING)])])])])])])],
               pristine)
   \<and> descend [(''items'',
                JObj [(''type'', JTag ARRAY),
                      (''items'',
                       JObj [(''type'',
                              JObj [(''detail'',
                                     JObj [(''type'',
                                            JObj [(''label'',
                                                   JObj [(''type'', JTag STRING)])])])])])])]
         [items_field, detail_field]
       = Some [(''label'', JObj [(''type'', JTag STRING)])]"
  by code_simp

end
